theory Spec2Isabelle
  imports Main "HOL-Library.AList"
begin

section \<open>Python values, errors and dictionaries\<close>

text \<open>
  The development follows \<^verbatim>\<open>pydoop/mapreduce/api.py\<close> (class \<^verbatim>\<open>JobConf\<close>) and
  \<^verbatim>\<open>pydoop/mapreduce/pipes.py\<close> (classes \<^verbatim>\<open>BinaryProtocol\<close>, \<^verbatim>\<open>CommandWriter\<close>,
  \<^verbatim>\<open>Context\<close>, \<^verbatim>\<open>Factory\<close> and the function \<^verbatim>\<open>run_task\<close>).

  Python is modelled as of version 3.7: a \<^verbatim>\<open>dict\<close> iterates in insertion order, and
  assigning to a key that is already present keeps the key's position. A string is a list
  of characters, each a code point below 256. An exception is a value of type \<open>error\<close>,
  and a function that may raise returns \<open>error + 'a\<close> with \<open>Inl\<close> for the exception.
\<close>

type_synonym bytes = string

datatype message =
    ReceivedBeforeAuthentication int    \<comment> \<open>\<^verbatim>\<open>"%d received before authentication"\<close>\<close>
  | ServerFailedToAuthenticate          \<comment> \<open>\<^verbatim>\<open>"server failed to authenticate"\<close>\<close>
  | UnknownProtocolId int               \<comment> \<open>\<^verbatim>\<open>"Unknown protocol id: %d"\<close>\<close>
  | NumberOfItemsNotEven                \<comment> \<open>\<^verbatim>\<open>"number of items is not even"\<close>\<close>
  | ReaderDefinedWhenNotNeeded          \<comment> \<open>\<^verbatim>\<open>"record reader defined when not needed"\<close>\<close>
  | ReaderNotDefined                    \<comment> \<open>\<^verbatim>\<open>"record reader not defined"\<close>\<close>
  | WriterDefinedWhenNotNeeded          \<comment> \<open>\<^verbatim>\<open>"record writer defined when not needed"\<close>\<close>
  | WriterNotDefined                    \<comment> \<open>\<^verbatim>\<open>"record writer not defined"\<close>\<close>
  | ReceivedAbort                       \<comment> \<open>\<^verbatim>\<open>"received ABORT command"\<close>\<close>
  | UnknownCommand int                  \<comment> \<open>\<^verbatim>\<open>"unknown command: %d"\<close>\<close>
  | InvalidBoolString string            \<comment> \<open>\<^verbatim>\<open>"invalid bool string: %s"\<close>\<close>

datatype error =
    RuntimeError message
  | PydoopError                \<comment> \<open>\<^verbatim>\<open>'JobConf.__init__: len(values) should be even'\<close>\<close>
  | TypeError_no_len           \<comment> \<open>\<^verbatim>\<open>len()\<close> of a generator\<close>
  | TypeError_not_subscriptable \<comment> \<open>\<^verbatim>\<open>itemgetter(0)\<close> applied to \<^verbatim>\<open>None\<close>\<close>
  | AttributeError string      \<comment> \<open>a method looked up on an object that lacks it\<close>
  | AssertionError
  | EndOfStream                \<comment> \<open>a read on the exhausted downlink stream\<close>
  | UserError string           \<comment> \<open>an exception raised by a user component\<close>

text \<open>
  The values a configuration getter takes as default or returns: \<^verbatim>\<open>None\<close>, a boolean or a
  string.
\<close>

datatype pyvalue = PyNone | PyBool bool | PyStr string

text \<open>
  A \<^verbatim>\<open>dict\<close> is an association list with distinct keys, in insertion order.
  \<^verbatim>\<open>d[k] = v\<close> replaces the value where the key stands, or appends the new key;
  \<^verbatim>\<open>d.update(e)\<close> and \<^verbatim>\<open>dict(pairs)\<close> assign the pairs from left to right.
\<close>

type_synonym ('k, 'v) dict = "('k \<times> 'v) list"

definition dict_setitem :: "('k, 'v) dict \<Rightarrow> 'k \<Rightarrow> 'v \<Rightarrow> ('k, 'v) dict" where
  "dict_setitem d k v = AList.update k v d"

definition dict_update :: "('k, 'v) dict \<Rightarrow> ('k \<times> 'v) list \<Rightarrow> ('k, 'v) dict" where
  "dict_update d ps = fold (\<lambda>(k, v) acc. dict_setitem acc k v) ps d"

definition dict_of :: "('k \<times> 'v) list \<Rightarrow> ('k, 'v) dict" where
  "dict_of ps = dict_update [] ps"

definition dict_get :: "('k, 'v) dict \<Rightarrow> 'k \<Rightarrow> 'v option" where
  "dict_get d k = map_of d k"

definition dict_contains :: "('k, 'v) dict \<Rightarrow> 'k \<Rightarrow> bool" where
  "dict_contains d k = (map_of d k \<noteq> None)"

definition dict_keys :: "('k, 'v) dict \<Rightarrow> 'k list" where
  "dict_keys d = map fst d"

section \<open>Job configuration (\<^verbatim>\<open>api.py\<close>, class \<^verbatim>\<open>JobConf\<close>)\<close>

text \<open>
  \<^verbatim>\<open>values[::2]\<close> and \<^verbatim>\<open>values[1::2]\<close>: the items at even and at odd positions.
  \<^verbatim>\<open>zip\<close> stops at the shorter list.
\<close>

fun slice_even :: "'a list \<Rightarrow> 'a list" where
  "slice_even [] = []"
| "slice_even [x] = [x]"
| "slice_even (x # y # xs) = x # slice_even xs"

fun slice_odd :: "'a list \<Rightarrow> 'a list" where
  "slice_odd [] = []"
| "slice_odd [x] = []"
| "slice_odd (x # y # xs) = y # slice_odd xs"

text \<open>
  What a caller passes to \<^verbatim>\<open>JobConf(values)\<close>: a sequence (a list or tuple, which has a
  length and can be sliced), or a generator, as \<^verbatim>\<open>BinaryProtocol.read_job_conf\<close> does with
  \<^verbatim>\<open>JobConf(t[i: i + 2] for i in range(0, n, 2))\<close>. A generator has no \<^verbatim>\<open>len()\<close>.
\<close>

datatype 'a py_iterable = Sequence "'a list" | Generator "'a list list"

type_synonym jobconf = "(string, string) dict"

text \<open>
  The tables \<^verbatim>\<open>mrv1_to_mrv2\<close> and \<^verbatim>\<open>mrv2_to_mrv1\<close> come from
  \<^verbatim>\<open>pydoop.utils.conversion_tables\<close>, which is not among the sources: every function
  that uses them takes them as parameters, as dictionaries from property name to property
  name.

  \<^verbatim>\<open>__mirror_conf_across_versions\<close>: the loop runs over the keys of \<^verbatim>\<open>self\<close> in
  order; \<^verbatim>\<open>self[k]\<close> is the value stored with the key the loop is at, so the model runs
  over the items. \<^verbatim>\<open>self\<close> is not changed until the final \<^verbatim>\<open>update\<close>.
\<close>

type_synonym conversion_table = "(string, string) dict"

definition mirror_key ::
  "conversion_table \<Rightarrow> jobconf \<Rightarrow> string \<times> string \<Rightarrow> jobconf \<Rightarrow> jobconf" where
  "mirror_key table self kv ext =
     (case dict_get table (fst kv) of
        None \<Rightarrow> ext
      | Some other \<Rightarrow>
          if \<not> dict_contains self other then dict_setitem ext other (snd kv) else ext)"

definition mirror_ext :: "conversion_table \<Rightarrow> conversion_table \<Rightarrow> jobconf \<Rightarrow> jobconf" where
  "mirror_ext mrv1_to_mrv2 mrv2_to_mrv1 self =
     fold (\<lambda>kv ext. mirror_key mrv2_to_mrv1 self kv (mirror_key mrv1_to_mrv2 self kv ext))
       self []"

definition mirror_conf_across_versions ::
  "conversion_table \<Rightarrow> conversion_table \<Rightarrow> jobconf \<Rightarrow> jobconf" where
  "mirror_conf_across_versions mrv1_to_mrv2 mrv2_to_mrv1 self =
     dict_update self (mirror_ext mrv1_to_mrv2 mrv2_to_mrv1 self)"

definition JobConf_init ::
  "conversion_table \<Rightarrow> conversion_table \<Rightarrow> string py_iterable \<Rightarrow> error + jobconf" where
  "JobConf_init mrv1_to_mrv2 mrv2_to_mrv1 values =
     (case values of
        Generator _ \<Rightarrow> Inl TypeError_no_len
      | Sequence vs \<Rightarrow>
          if odd (length vs) then Inl PydoopError
          else Inr (mirror_conf_across_versions mrv1_to_mrv2 mrv2_to_mrv1
                      (dict_of (zip (slice_even vs) (slice_odd vs)))))"

text \<open>
  \<^verbatim>\<open>str.strip()\<close> removes leading and trailing whitespace and \<^verbatim>\<open>str.lower()\<close> maps
  each cased character to lower case. Below code point 256 the whitespace characters are
  9 to 13, 28 to 32, 133 and 160, and the upper-case letters are 65 to 90 and 192 to 222
  without 215; each has its lower-case letter 32 places up.
\<close>

definition py_isspace :: "char \<Rightarrow> bool" where
  "py_isspace c =
     (let n = (of_char c :: nat)
      in (9 \<le> n \<and> n \<le> 13) \<or> (28 \<le> n \<and> n \<le> 32) \<or> n = 133 \<or> n = 160)"

definition py_strip :: "string \<Rightarrow> string" where
  "py_strip s = rev (dropWhile py_isspace (rev (dropWhile py_isspace s)))"

definition py_lower_char :: "char \<Rightarrow> char" where
  "py_lower_char c =
     (let n = (of_char c :: nat)
      in if (65 \<le> n \<and> n \<le> 90) \<or> (192 \<le> n \<and> n \<le> 222 \<and> n \<noteq> 215)
         then char_of (n + 32) else c)"

definition py_lower :: "string \<Rightarrow> string" where
  "py_lower s = map py_lower_char s"

text \<open>
  \<^verbatim>\<open>JobConf.get(key, default)\<close> with two arguments is \<^verbatim>\<open>dict.get\<close>. The stored values are
  strings; a default is any \<open>pyvalue\<close>, with \<^verbatim>\<open>None\<close> for a default that was not given.
\<close>

definition JobConf_get :: "jobconf \<Rightarrow> string \<Rightarrow> pyvalue \<Rightarrow> pyvalue" where
  "JobConf_get self k dflt =
     (case dict_get self k of Some s \<Rightarrow> PyStr s | None \<Rightarrow> dflt)"

definition get_bool :: "jobconf \<Rightarrow> string \<Rightarrow> pyvalue \<Rightarrow> error + pyvalue" where
  "get_bool self k dflt =
     (let v = JobConf_get self k dflt
      in if v \<noteq> dflt then
           (case v of
              PyStr s \<Rightarrow>
                (let v' = py_lower (py_strip s)
                 in if v' = ''true'' then Inr (PyBool True)
                    else if v' = ''false'' then Inr (PyBool False)
                    else if dflt = PyNone then Inl (RuntimeError (InvalidBoolString v'))
                    else Inr dflt)
            | _ \<Rightarrow> Inl (AttributeError ''strip''))
         else Inr v)"

text \<open>
  The flat sequence \<^verbatim>\<open>[k1, v1, k2, v2, ...]\<close> of a list of pairs. Every list of even
  length is the flat sequence of the pairs that \<^verbatim>\<open>zip(values[::2], values[1::2])\<close> makes
  of it (lemma \<open>flat_zip_slices\<close> below).
\<close>

fun flat :: "('a \<times> 'a) list \<Rightarrow> 'a list" where
  "flat [] = []"
| "flat (kv # ps) = fst kv # snd kv # flat ps"

section \<open>The Pipes protocol engine (\<^verbatim>\<open>pipes.py\<close>)\<close>

subsection \<open>Commands, values and user components\<close>

text \<open>
  The downlink is the sequence of commands the host sends, each an opcode with its fields
  as the stream library frames them. \<open>OTHER n\<close> is an opcode outside the command set.
  \<^verbatim>\<open>SET_JOB_CONF\<close> carries the strings that follow its count; \<^verbatim>\<open>RUN_MAP\<close> carries the
  serialized split, the number of reduces and the piped-input flag.
\<close>

datatype command =
    AUTHENTICATION_REQ bytes bytes
  | START int
  | SET_JOB_CONF "string list"
  | SET_INPUT_TYPES string string
  | RUN_MAP bytes int int
  | MAP_ITEM bytes bytes
  | RUN_REDUCE int int
  | REDUCE_KEY bytes
  | REDUCE_VALUE bytes
  | CLOSE
  | ABORT
  | OTHER int

fun opcode :: "command \<Rightarrow> int" where
  "opcode (START _) = 0"
| "opcode (SET_JOB_CONF _) = 1"
| "opcode (SET_INPUT_TYPES _ _) = 2"
| "opcode (RUN_MAP _ _ _) = 3"
| "opcode (MAP_ITEM _ _) = 4"
| "opcode (RUN_REDUCE _ _) = 5"
| "opcode (REDUCE_KEY _) = 6"
| "opcode (REDUCE_VALUE _) = 7"
| "opcode CLOSE = 8"
| "opcode ABORT = 9"
| "opcode (AUTHENTICATION_REQ _ _) = 10"
| "opcode (OTHER n) = n"

text \<open>
  \<^verbatim>\<open>get_k\<close> and \<^verbatim>\<open>get_v\<close> are one of four readers: the method of the class
  (\<^verbatim>\<open>stream.read_bytes\<close>), the two entries of \<^verbatim>\<open>DESERIALIZERS\<close>, or \<^verbatim>\<open>_get_pickled\<close>.

  Keys and values are: the bytes of a field; the 64-bit integer that
  \<^verbatim>\<open>read_long_writable\<close> reads from 8 bytes (kept as those bytes); a text; an object
  that a user component or \<^verbatim>\<open>pickle.loads\<close> has made (\<open>Obj\<close>); and what
  \<^verbatim>\<open>Context.emit\<close> makes of them: \<^verbatim>\<open>dumps(x, HIGHEST_PROTOCOL)\<close> and
  \<^verbatim>\<open>as_text(x).encode("utf-8")\<close>.

  An input split is the raw bytes of the field, or the \<^verbatim>\<open>FileSplit(filename, offset,
  length)\<close> that \<^verbatim>\<open>FileSplit.fromstream\<close> reads from it.
\<close>

datatype deserializer = read_bytes | get_LongWritable | get_Text | get_pickled

datatype pyobj =
    NoneObj
  | Bytes bytes
  | Long bytes
  | Text string
  | Obj string
  | Dumps pyobj
  | Utf8 pyobj

datatype split = RawSplit bytes | FileSplit string int int

datatype uplink_command =
    AUTHENTICATION_RESP bytes
  | OUTPUT pyobj pyobj
  | PARTITIONED_OUTPUT int pyobj pyobj
  | DONE

text \<open>
  A user component is given by what the engine can observe of it. An operation of a
  component emits key/value pairs through \<^verbatim>\<open>context.emit\<close> and then returns, or raises:
  its result is the list of pairs and the exception, if any. A reducer is taken to iterate
  over all of \<^verbatim>\<open>context.values\<close> and not to intercept the exceptions that pass through
  it, so that \<^verbatim>\<open>reduce\<close> is a function of the key and of the values it was handed. A
  record reader yields a finite list of records. Constructors of components do not raise,
  and a component that is present is true in a condition.
\<close>

type_synonym user_result = "(pyobj \<times> pyobj) list \<times> error option"

record mapper_class =
  map_op :: "pyobj \<Rightarrow> pyobj \<Rightarrow> user_result"
  mapper_close :: user_result

record reducer_class =
  reduce_op :: "pyobj \<Rightarrow> pyobj list \<Rightarrow> user_result"
  reducer_close :: user_result

record partitioner_class =
  partition_op :: "pyobj \<Rightarrow> int option \<Rightarrow> int"

record record_reader_class =
  records :: "(pyobj \<times> pyobj) list"
  reader_close :: user_result

record record_writer_class =
  writer_close :: user_result

text \<open>
  \<^verbatim>\<open>Factory\<close>: the mapper class is required, the others are optional, and
  \<^verbatim>\<open>create_x\<close> returns \<^verbatim>\<open>None\<close> for a class that was not given. The engine never
  calls \<^verbatim>\<open>create_combiner\<close>.
\<close>

record factory =
  mclass :: mapper_class
  rclass :: "reducer_class option"
  pclass :: "partitioner_class option"
  rwclass :: "record_writer_class option"
  rrclass :: "record_reader_class option"

text \<open>
  The trace is the chronological record of what the engine does at its boundary: the
  commands it reads, the calls it makes to user components, the values it hands to a
  running reducer, and the commands it writes to the uplink.
\<close>

datatype call =
    Map pyobj pyobj
  | Reduce pyobj
  | Close_mapper
  | Close_record_reader
  | Close_record_writer
  | Close_reducer
  | Writer_emit pyobj pyobj

datatype event =
    Recv command
  | Invoke call
  | Yield pyobj
  | Sent uplink_command

text \<open>
  What the sources leave to other modules is a parameter: \<^verbatim>\<open>create_digest\<close> of
  \<^verbatim>\<open>string_utils\<close>; \<^verbatim>\<open>pickle.loads\<close>, which raises on a field that is not a pickle;
  \<^verbatim>\<open>read_string\<close> of the stream library \<^verbatim>\<open>sercore\<close>, which raises on a field that is
  not a text; the reads that \<^verbatim>\<open>FileSplit.fromstream\<close> makes of the stream, which raise
  on a field that is not a serialized file split; and the two conversion tables.
\<close>

record environment =
  create_digest :: "bytes \<Rightarrow> bytes \<Rightarrow> bytes"
  loads :: "bytes \<Rightarrow> error + pyobj"
  read_string :: "bytes \<Rightarrow> error + string"
  FileSplit_fromstream :: "bytes \<Rightarrow> error + split"
  env_mrv1_to_mrv2 :: conversion_table
  env_mrv2_to_mrv1 :: conversion_table

text \<open>
  The state is the fields of \<^verbatim>\<open>Context\<close>, of \<^verbatim>\<open>BinaryProtocol\<close> (with the class
  attributes \<^verbatim>\<open>get_k\<close> and \<^verbatim>\<open>get_v\<close>) and the two flags kept on the
  \<^verbatim>\<open>CommandWriter\<close>, with the trace. \<^verbatim>\<open>Context.__init__\<close> sets \<^verbatim>\<open>job_conf\<close> to the
  plain \<^verbatim>\<open>{}\<close>, which is not a \<^verbatim>\<open>JobConf\<close> and has no \<^verbatim>\<open>get_bool\<close>: that is
  \<open>None\<close> here, and \<open>Some jc\<close> is a \<^verbatim>\<open>JobConf\<close>.
\<close>

record state =
  the_factory :: factory
  job_conf :: "jobconf option"
  input_split :: "split option"
  ctx_key :: pyobj
  ctx_value :: pyobj
  mapper :: "mapper_class option"
  partitioner :: "partitioner_class option"
  record_reader :: "record_reader_class option"
  record_writer :: "record_writer_class option"
  reducer :: "reducer_class option"
  nred :: "int option"
  password :: "bytes option"
  auth_done :: bool
  raw_split :: bool
  raw_k :: bool
  raw_v :: bool
  get_k :: deserializer
  get_v :: deserializer
  private_encoding :: bool
  auto_serialize :: bool
  trace :: "event list"

record kwargs =
  kw_raw_split :: bool
  kw_raw_keys :: bool
  kw_raw_values :: bool
  kw_private_encoding :: bool
  kw_auto_serialize :: bool

definition default_kwargs :: kwargs where
  "default_kwargs =
     \<lparr>kw_raw_split = False, kw_raw_keys = False, kw_raw_values = False,
      kw_private_encoding = True, kw_auto_serialize = True\<rparr>"

text \<open>
  \<^verbatim>\<open>Context(factory)\<close> and \<^verbatim>\<open>BinaryProtocol(istream, context, ostream, **kwargs)\<close>;
  \<open>pw\<close> is what \<^verbatim>\<open>get_password()\<close> returns.
\<close>

definition initial_state :: "factory \<Rightarrow> kwargs \<Rightarrow> bytes option \<Rightarrow> state" where
  "initial_state f kw pw =
     \<lparr>the_factory = f, job_conf = None, input_split = None,
      ctx_key = NoneObj, ctx_value = NoneObj,
      mapper = None, partitioner = None, record_reader = None, record_writer = None,
      reducer = None, nred = None,
      password = pw, auth_done = False,
      raw_split = kw_raw_split kw, raw_k = kw_raw_keys kw, raw_v = kw_raw_values kw,
      get_k = read_bytes, get_v = read_bytes,
      private_encoding = kw_private_encoding kw, auto_serialize = kw_auto_serialize kw,
      trace = []\<rparr>"

definition log :: "event \<Rightarrow> state \<Rightarrow> state" where
  "log e st = st\<lparr>trace := trace st @ [e]\<rparr>"

subsection \<open>\<^verbatim>\<open>Context\<close>: creating components, emit and close\<close>

text \<open>
  \<^verbatim>\<open>Context.create_x()\<close> stores what \<^verbatim>\<open>Factory.create_x(context)\<close> returns: an
  instance of the class, or \<^verbatim>\<open>None\<close> for a class that was not given.
\<close>

definition create_mapper :: "state \<Rightarrow> state" where
  "create_mapper st = st\<lparr>mapper := Some (mclass (the_factory st))\<rparr>"

definition create_partitioner :: "state \<Rightarrow> state" where
  "create_partitioner st = st\<lparr>partitioner := pclass (the_factory st)\<rparr>"

definition create_record_reader :: "state \<Rightarrow> state" where
  "create_record_reader st = st\<lparr>record_reader := rrclass (the_factory st)\<rparr>"

definition create_record_writer :: "state \<Rightarrow> state" where
  "create_record_writer st = st\<lparr>record_writer := rwclass (the_factory st)\<rparr>"

definition create_reducer :: "state \<Rightarrow> state" where
  "create_reducer st = st\<lparr>reducer := rclass (the_factory st)\<rparr>"

text \<open>
  \<^verbatim>\<open>Context.emit(key, value)\<close>. A record writer takes the pair as it is. Otherwise
  the pair is encoded (\<^verbatim>\<open>dumps\<close> while a mapper is active and private encoding is on,
  UTF-8 text when auto-serialize is on) and written as \<^verbatim>\<open>PARTITIONED_OUTPUT\<close> when a
  partitioner is present, as \<^verbatim>\<open>OUTPUT\<close> when not.
\<close>

definition emit_event :: "state \<Rightarrow> pyobj \<times> pyobj \<Rightarrow> event" where
  "emit_event st kv =
     (if record_writer st \<noteq> None then Invoke (Writer_emit (fst kv) (snd kv))
      else
        (let enc = (if mapper st \<noteq> None \<and> private_encoding st then Dumps
                    else if auto_serialize st then Utf8
                    else (\<lambda>x. x));
             k = enc (fst kv);
             v = enc (snd kv)
         in case partitioner st of
              Some p \<Rightarrow> Sent (PARTITIONED_OUTPUT (partition_op p k (nred st)) k v)
            | None \<Rightarrow> Sent (OUTPUT k v)))"

definition emit :: "state \<Rightarrow> pyobj \<times> pyobj \<Rightarrow> state" where
  "emit st kv = log (emit_event st kv) st"

text \<open>
  An operation of a user component runs: the pairs it emits go through \<open>emit\<close>, in order,
  and its exception, if any, comes back.
\<close>

definition perform :: "state \<Rightarrow> user_result \<Rightarrow> error option \<times> state" where
  "perform st r = (snd r, foldl emit st (fst r))"

text \<open>
  \<^verbatim>\<open>Context.close()\<close>. Each \<^verbatim>\<open>if self.x: self.x.close()\<close> of the \<^verbatim>\<open>try\<close> block
  is one \<open>close_component\<close>: it is skipped when an earlier close has raised, and when
  the component is absent. The \<^verbatim>\<open>finally\<close> clause writes \<^verbatim>\<open>DONE\<close> in every case, and
  the exception, if any, goes on to the caller.
\<close>

definition close_component ::
  "call \<Rightarrow> user_result option \<Rightarrow> error option \<times> state \<Rightarrow> error option \<times> state" where
  "close_component c cl r =
     (case fst r of
        Some e \<Rightarrow> r
      | None \<Rightarrow>
          (case cl of
             None \<Rightarrow> r
           | Some u \<Rightarrow> perform (log (Invoke c) (snd r)) u))"

definition Context_close :: "state \<Rightarrow> error option \<times> state" where
  "Context_close st =
     (let r1 = close_component Close_mapper (map_option mapper_close (mapper st)) (None, st);
          r2 = close_component Close_record_reader
                 (map_option reader_close (record_reader st)) r1;
          r3 = close_component Close_record_writer
                 (map_option writer_close (record_writer st)) r2;
          r4 = close_component Close_reducer (map_option reducer_close (reducer st)) r3
      in (fst r4, log (Sent DONE) (snd r4)))"

subsection \<open>\<^verbatim>\<open>BinaryProtocol\<close>: the helpers of \<^verbatim>\<open>__next__\<close>\<close>

text \<open>
  \<^verbatim>\<open>read_job_conf\<close>: the count \<^verbatim>\<open>n\<close> is the number of strings that follow. The
  generator passed to \<^verbatim>\<open>JobConf\<close> yields the slices \<^verbatim>\<open>t[i: i + 2]\<close>.
\<close>

fun slices2 :: "'a list \<Rightarrow> 'a list list" where
  "slices2 [] = []"
| "slices2 [x] = [[x]]"
| "slices2 (x # y # xs) = [x, y] # slices2 xs"

definition read_job_conf :: "environment \<Rightarrow> string list \<Rightarrow> error + jobconf" where
  "read_job_conf env t =
     (if odd (length t) then Inl (RuntimeError NumberOfItemsNotEven)
      else JobConf_init (env_mrv1_to_mrv2 env) (env_mrv2_to_mrv1 env) (Generator (slices2 t)))"

definition verify_digest :: "environment \<Rightarrow> state \<Rightarrow> bytes \<Rightarrow> bytes \<Rightarrow> error + state" where
  "verify_digest env st digest challenge =
     (case password st of
        Some pw \<Rightarrow>
          if create_digest env pw challenge \<noteq> digest
          then Inl (RuntimeError ServerFailedToAuthenticate)
          else Inr ((log (Sent (AUTHENTICATION_RESP (create_digest env pw digest))) st)
                      \<lparr>auth_done := True\<rparr>)
      | None \<Rightarrow> Inr (st\<lparr>auth_done := True\<rparr>))"

definition setup_record_writer :: "state \<Rightarrow> bool \<Rightarrow> error option \<times> state" where
  "setup_record_writer st piped_output =
     (let st' = create_record_writer st
      in if record_writer st' \<noteq> None \<and> piped_output
           then (Some (RuntimeError WriterDefinedWhenNotNeeded), st')
         else if record_writer st' = None \<and> \<not> piped_output
           then (Some (RuntimeError WriterNotDefined), st')
         else (None, st'))"

text \<open>
  A reader applied to a field of the stream. \<^verbatim>\<open>_get_LongWritable\<close> asserts that the
  field is 8 bytes long; \<^verbatim>\<open>_get_Text\<close> is \<^verbatim>\<open>read_string\<close> and \<^verbatim>\<open>_get_pickled\<close> is
  \<^verbatim>\<open>loads(read_bytes())\<close>, and each raises what that function raises.
\<close>

definition deserialize :: "environment \<Rightarrow> deserializer \<Rightarrow> bytes \<Rightarrow> error + pyobj" where
  "deserialize env d b =
     (case d of
        read_bytes \<Rightarrow> Inr (Bytes b)
      | get_LongWritable \<Rightarrow> if length b \<noteq> 8 then Inl AssertionError else Inr (Long b)
      | get_Text \<Rightarrow> (case read_string env b of Inl e \<Rightarrow> Inl e | Inr s \<Rightarrow> Inr (Text s))
      | get_pickled \<Rightarrow> loads env b)"

definition DESERIALIZERS :: "string \<Rightarrow> deserializer option" where
  "DESERIALIZERS name =
     (if name = ''org.apache.hadoop.io.LongWritable'' then Some get_LongWritable
      else if name = ''org.apache.hadoop.io.Text'' then Some get_Text
      else None)"

definition IS_JAVA_RW :: string where
  "IS_JAVA_RW = ''mapreduce.pipes.isjavarecordwriter''"

text \<open>
  The lines of the \<^verbatim>\<open>RUN_MAP\<close> handler under \<^verbatim>\<open>if nred < 1\<close>. On the plain \<^verbatim>\<open>{}\<close>
  the lookup of \<^verbatim>\<open>get_bool\<close> raises \<^verbatim>\<open>AttributeError\<close>. \<^verbatim>\<open>get_bool\<close> is called
  without a default, and its result is true in a condition only when it is \<^verbatim>\<open>True\<close>.
\<close>

definition map_only_setup :: "state \<Rightarrow> error option \<times> state" where
  "map_only_setup st =
     (let st' = st\<lparr>private_encoding := False\<rparr>
      in case job_conf st' of
           None \<Rightarrow> (Some (AttributeError ''get_bool''), st')
         | Some jc \<Rightarrow>
             (case get_bool jc IS_JAVA_RW PyNone of
                Inl e \<Rightarrow> (Some e, st')
              | Inr piped_output \<Rightarrow> setup_record_writer st' (piped_output = PyBool True)))"

text \<open>
  The loop \<^verbatim>\<open>for self.context.key, self.context.value in reader\<close> with its body
  \<^verbatim>\<open>self.context.mapper.map(self.context)\<close>; the call is recorded with the key and
  value the context holds.
\<close>

fun map_records :: "(pyobj \<times> pyobj) list \<Rightarrow> state \<Rightarrow> error option \<times> state" where
  "map_records [] st = (None, st)"
| "map_records (kv # rs) st =
     (let st1 = st\<lparr>ctx_key := fst kv, ctx_value := snd kv\<rparr>
      in case mapper st1 of
           None \<Rightarrow> (Some (AttributeError ''map''), st1)
         | Some m \<Rightarrow>
             (case perform (log (Invoke (Map (ctx_key st1) (ctx_value st1))) st1)
                     (map_op m (ctx_key st1) (ctx_value st1)) of
                (Some e, st2) \<Rightarrow> (Some e, st2)
              | (None, st2) \<Rightarrow> map_records rs st2))"

text \<open>
  The \<^verbatim>\<open>RUN_MAP\<close> handler up to and including \<^verbatim>\<open>create_partitioner()\<close>.
\<close>

definition read_split :: "environment \<Rightarrow> state \<Rightarrow> bytes \<Rightarrow> error + split" where
  "read_split env st sp = (if raw_split st then Inr (RawSplit sp) else FileSplit_fromstream env sp)"

definition run_map_setup ::
  "environment \<Rightarrow> state \<Rightarrow> bytes \<Rightarrow> int \<Rightarrow> int \<Rightarrow> error option \<times> state" where
  "run_map_setup env st sp n piped_input =
     (case read_split env st sp of
        Inl e \<Rightarrow> (Some e, st)
      | Inr the_split \<Rightarrow>
          (let st2 = create_record_reader (st\<lparr>input_split := Some the_split\<rparr>)
           in if record_reader st2 \<noteq> None \<and> piped_input \<noteq> 0
                then (Some (RuntimeError ReaderDefinedWhenNotNeeded), st2)
              else if record_reader st2 = None \<and> piped_input = 0
                then (Some (RuntimeError ReaderNotDefined), st2)
              else
                (case (if n < 1 then map_only_setup st2 else (None, st2)) of
                   (Some e, st3) \<Rightarrow> (Some e, st3)
                 | (None, st3) \<Rightarrow>
                     (None, create_partitioner (create_mapper (st3\<lparr>nred := Some n\<rparr>))))))"

text \<open>
  What a call of \<^verbatim>\<open>__next__\<close> comes to: it returns \<^verbatim>\<open>None\<close> or a pair of opcode and
  payload, it raises \<^verbatim>\<open>StopIteration\<close> or an error, or, in the \<^verbatim>\<open>RUN_REDUCE\<close>
  handler, it enters the loop \<^verbatim>\<open>for cmd, subs in groupby(self, itemgetter(0))\<close>, which
  calls \<^verbatim>\<open>__next__\<close> again for the commands that follow.
\<close>

datatype outcome =
    Return "(int \<times> pyobj) option"
  | StopIteration
  | Raise error
  | EnterLoop

definition set_input_types :: "state \<Rightarrow> string \<Rightarrow> string \<Rightarrow> state" where
  "set_input_types st key_type value_type =
     (let st1 = (if \<not> raw_k st
                 then (case DESERIALIZERS key_type of Some d \<Rightarrow> st\<lparr>get_k := d\<rparr> | None \<Rightarrow> st)
                 else st)
      in if \<not> raw_v st1
         then (case DESERIALIZERS value_type of Some d \<Rightarrow> st1\<lparr>get_v := d\<rparr> | None \<Rightarrow> st1)
         else st1)"

definition run_map ::
  "environment \<Rightarrow> state \<Rightarrow> bytes \<Rightarrow> int \<Rightarrow> int \<Rightarrow> outcome \<times> state" where
  "run_map env st sp n piped_input =
     (case run_map_setup env st sp n piped_input of
        (Some e, st') \<Rightarrow> (Raise e, st')
      | (None, st') \<Rightarrow>
          (case record_reader st' of
             None \<Rightarrow> (Return None, st')
           | Some reader \<Rightarrow>
               (case map_records (records reader) st' of
                  (Some e, st'') \<Rightarrow> (Raise e, st'')
                | (None, st'') \<Rightarrow> (StopIteration, snd (Context_close st'')))))"

definition map_item :: "environment \<Rightarrow> state \<Rightarrow> bytes \<Rightarrow> bytes \<Rightarrow> outcome \<times> state" where
  "map_item env st k v =
     (case deserialize env (get_k st) k of
        Inl e \<Rightarrow> (Raise e, st)
      | Inr key \<Rightarrow>
          (let st1 = st\<lparr>ctx_key := key\<rparr>
           in case deserialize env (get_v st1) v of
                Inl e \<Rightarrow> (Raise e, st1)
              | Inr val \<Rightarrow>
                  (case map_records [(key, val)] st1 of
                     (Some e, st2) \<Rightarrow> (Raise e, st2)
                   | (None, st2) \<Rightarrow> (Return None, st2))))"

definition run_reduce :: "state \<Rightarrow> int \<Rightarrow> int \<Rightarrow> outcome \<times> state" where
  "run_reduce st part piped_output =
     (let st1 = create_reducer st
      in case setup_record_writer st1 (piped_output \<noteq> 0) of
           (Some e, st2) \<Rightarrow> (Raise e, st2)
         | (None, st2) \<Rightarrow>
             (EnterLoop,
              if private_encoding st2 then st2\<lparr>get_k := get_pickled, get_v := get_pickled\<rparr>
              else st2))"

text \<open>
  \<^verbatim>\<open>BinaryProtocol.__next__\<close>, after \<^verbatim>\<open>cmd = self.stream.read_vint()\<close> has read the
  opcode of the command \<open>c\<close>.
\<close>

definition protocol_next :: "environment \<Rightarrow> state \<Rightarrow> command \<Rightarrow> outcome \<times> state" where
  "protocol_next env st c =
     (if opcode c \<noteq> 10 \<and> \<not> auth_done st
        then (Raise (RuntimeError (ReceivedBeforeAuthentication (opcode c))), st)
      else
        (case c of
           AUTHENTICATION_REQ digest challenge \<Rightarrow>
             (case verify_digest env st digest challenge of
                Inl e \<Rightarrow> (Raise e, st)
              | Inr st' \<Rightarrow> (Return None, st'))
         | START v \<Rightarrow>
             if v \<noteq> 0 then (Raise (RuntimeError (UnknownProtocolId v)), st)
             else (Return None, st)
         | SET_JOB_CONF t \<Rightarrow>
             (case read_job_conf env t of
                Inl e \<Rightarrow> (Raise e, st)
              | Inr jc \<Rightarrow> (Return None, st\<lparr>job_conf := Some jc\<rparr>))
         | RUN_MAP sp n piped_input \<Rightarrow> run_map env st sp n piped_input
         | SET_INPUT_TYPES key_type value_type \<Rightarrow>
             (Return None, set_input_types st key_type value_type)
         | MAP_ITEM k v \<Rightarrow> map_item env st k v
         | RUN_REDUCE part piped_output \<Rightarrow> run_reduce st part piped_output
         | REDUCE_KEY k \<Rightarrow>
             (case deserialize env (get_k st) k of
                Inl e \<Rightarrow> (Raise e, st)
              | Inr key \<Rightarrow> (Return (Some (opcode c, key)), st))
         | REDUCE_VALUE v \<Rightarrow>
             (case deserialize env (get_v st) v of
                Inl e \<Rightarrow> (Raise e, st)
              | Inr val \<Rightarrow> (Return (Some (opcode c, val)), st))
         | ABORT \<Rightarrow> (Raise (RuntimeError ReceivedAbort), st)
         | CLOSE \<Rightarrow>
             if mapper st \<noteq> None then (StopIteration, snd (Context_close st))
             else (Return (Some (opcode c, NoneObj)), st)
         | OTHER n \<Rightarrow> (Raise (RuntimeError (UnknownCommand n)), st)))"

subsection \<open>The grouping loop and \<^verbatim>\<open>run_task\<close>\<close>

text \<open>
  \<^verbatim>\<open>__next__\<close> is called from three places: by the loop \<^verbatim>\<open>for _ in connection.downlink\<close>
  of \<^verbatim>\<open>run_task\<close>; by \<^verbatim>\<open>groupby\<close>, when the \<^verbatim>\<open>for\<close> loop of a \<^verbatim>\<open>RUN_REDUCE\<close> handler
  asks it for the next group; and by the group iterator \<^verbatim>\<open>subs\<close>, when the reducer asks
  \<^verbatim>\<open>context.values\<close> for the next value. A \<^verbatim>\<open>RUN_REDUCE\<close> handler that waits for such
  a call to come back is a frame, and the frames of the handlers that are active form a
  stack over the loop of \<^verbatim>\<open>run_task\<close>:
  \<^item> \<open>Groupby_next tgtkey\<close>: \<^verbatim>\<open>groupby.__next__\<close> fetches an item; \<open>tgtkey\<close> is the key
    of the group it leaves (\<open>None\<close> before the first group). An item with that key belongs
    to the group that was left and is skipped.
  \<^item> \<open>Grouper_next vs\<close>: \<^verbatim>\<open>reducer.reduce\<close> runs, has been handed the values \<open>vs\<close>,
    and its group iterator fetches an item; the key of the group is \<^verbatim>\<open>REDUCE_VALUE\<close>.

  \<open>new_group\<close> is the body of the \<^verbatim>\<open>for\<close> loop for a group that starts with the item
  \<open>(cmd, x)\<close>. For \<^verbatim>\<open>REDUCE_KEY\<close>, \<^verbatim>\<open>next(subs)\<close> takes the item itself. For
  \<^verbatim>\<open>REDUCE_VALUE\<close> the reducer is called; the first value it is handed is the item. For
  \<^verbatim>\<open>CLOSE\<close> the context is closed and the handler raises \<^verbatim>\<open>StopIteration\<close>, whatever
  \<^verbatim>\<open>close\<close> did.
\<close>

datatype frame = Groupby_next "int option" | Grouper_next "pyobj list"

datatype resumed = Stay frame state | Leave outcome state

definition new_group :: "int \<times> pyobj \<Rightarrow> state \<Rightarrow> resumed" where
  "new_group item st =
     (if fst item = 6 then Stay (Groupby_next (Some (fst item))) (st\<lparr>ctx_key := snd item\<rparr>)
      else if fst item = 7 then
        (case reducer st of
           None \<Rightarrow> Leave (Raise (AttributeError ''reduce'')) st
         | Some r \<Rightarrow>
             Stay (Grouper_next [snd item])
               (log (Yield (snd item)) (log (Invoke (Reduce (ctx_key st))) st)))
      else if fst item = 8 then Leave StopIteration (snd (Context_close st))
      else Stay (Groupby_next (Some (fst item))) st)"

text \<open>
  The reducer has been handed all the values \<open>vs\<close> of its group: it does the rest of its
  work and returns or raises.
\<close>

definition finish_reduce :: "pyobj list \<Rightarrow> state \<Rightarrow> error option \<times> state" where
  "finish_reduce vs st =
     (case reducer st of
        None \<Rightarrow> (Some (AttributeError ''reduce''), st)
      | Some r \<Rightarrow> perform st (reduce_op r (ctx_key st) vs))"

text \<open>
  A frame takes what the call of \<^verbatim>\<open>__next__\<close> it waited for has come to. A pair is an
  item; \<^verbatim>\<open>None\<close> is an item too, on which \<^verbatim>\<open>itemgetter(0)\<close> raises \<^verbatim>\<open>TypeError\<close>;
  \<^verbatim>\<open>StopIteration\<close> ends the iteration of \<^verbatim>\<open>groupby\<close> (the \<^verbatim>\<open>for\<close> loop is over and
  the handler returns \<^verbatim>\<open>None\<close>) or of the group (the reducer has all its values, and
  \<^verbatim>\<open>groupby\<close> fetches again when the reducer has returned); an error passes through.
\<close>

fun frame_resume :: "frame \<Rightarrow> outcome \<Rightarrow> state \<Rightarrow> resumed" where
  "frame_resume f (Raise e) st = Leave (Raise e) st"
| "frame_resume f (Return None) st = Leave (Raise TypeError_not_subscriptable) st"
| "frame_resume f EnterLoop st = Leave (Raise TypeError_not_subscriptable) st"
| "frame_resume (Groupby_next tgtkey) StopIteration st = Leave (Return None) st"
| "frame_resume (Groupby_next tgtkey) (Return (Some item)) st =
     (if tgtkey = Some (fst item) then Stay (Groupby_next tgtkey) st
      else new_group item st)"
| "frame_resume (Grouper_next vs) StopIteration st =
     (case finish_reduce vs st of
        (Some e, st') \<Rightarrow> Leave (Raise e) st'
      | (None, st') \<Rightarrow> Stay (Groupby_next (Some 7)) st')"
| "frame_resume (Grouper_next vs) (Return (Some item)) st =
     (if fst item = 7 then Stay (Grouper_next (vs @ [snd item])) (log (Yield (snd item)) st)
      else
        (case finish_reduce vs st of
           (Some e, st') \<Rightarrow> Leave (Raise e) st'
         | (None, st') \<Rightarrow> new_group item st'))"

text \<open>
  A configuration of the engine: it is about to read a command, with the frames of the
  active \<^verbatim>\<open>RUN_REDUCE\<close> handlers, innermost first; or the loop of \<^verbatim>\<open>run_task\<close> has
  ended on \<^verbatim>\<open>StopIteration\<close>; or an error has come out of \<^verbatim>\<open>run_task\<close>.
\<close>

datatype config = Running "frame list" state | Finished state | Failed error state

fun state_of :: "config \<Rightarrow> state" where
  "state_of (Running fs st) = st"
| "state_of (Finished st) = st"
| "state_of (Failed e st) = st"

text \<open>
  What a call of \<^verbatim>\<open>__next__\<close> has come to goes to the innermost frame, and what a
  handler comes to that ends goes to the frame below it. The loop of \<^verbatim>\<open>run_task\<close>
  drops what \<^verbatim>\<open>__next__\<close> returns.
\<close>

fun resume :: "frame list \<Rightarrow> outcome \<Rightarrow> state \<Rightarrow> config" where
  "resume fs EnterLoop st = Running (Groupby_next None # fs) st"
| "resume [] (Return x) st = Running [] st"
| "resume [] StopIteration st = Finished st"
| "resume [] (Raise e) st = Failed e st"
| "resume (f # fs) out st =
     (case frame_resume f out st of
        Stay f' st' \<Rightarrow> Running (f' # fs) st'
      | Leave out' st' \<Rightarrow> resume fs out' st')"

definition step :: "environment \<Rightarrow> config \<Rightarrow> command \<Rightarrow> config" where
  "step env cfg c =
     (case cfg of
        Running fs st \<Rightarrow>
          (case protocol_next env (log (Recv c) st) c of (out, st') \<Rightarrow> resume fs out st')
      | _ \<Rightarrow> cfg)"

text \<open>
  The engine on a downlink that holds the commands \<open>cs\<close>: \<open>steps\<close> is the configuration
  when they have been read or the engine has stopped before, and \<open>run\<close> lets the read
  that finds the downlink exhausted raise \<open>EndOfStream\<close>, which is an error like any
  other.
\<close>

definition steps :: "environment \<Rightarrow> config \<Rightarrow> command list \<Rightarrow> config" where
  "steps env cfg cs = foldl (step env) cfg cs"

definition end_of_stream :: "config \<Rightarrow> config" where
  "end_of_stream cfg =
     (case cfg of Running fs st \<Rightarrow> resume fs (Raise EndOfStream) st | _ \<Rightarrow> cfg)"

definition run :: "environment \<Rightarrow> config \<Rightarrow> command list \<Rightarrow> config" where
  "run env cfg cs = end_of_stream (steps env cfg cs)"

text \<open>
  \<^verbatim>\<open>run_task(factory, **kwargs)\<close> on a connection whose downlink holds \<open>cs\<close>. Leaving
  the \<^verbatim>\<open>with\<close> block closes the two streams, which writes nothing.
\<close>

definition run_task ::
  "environment \<Rightarrow> factory \<Rightarrow> kwargs \<Rightarrow> bytes option \<Rightarrow> command list \<Rightarrow> config" where
  "run_task env f kw pw cs = run env (Running [] (initial_state f kw pw)) cs"

subsection \<open>Reading a trace\<close>

text \<open>The events that a state \<open>st'\<close> has after those of an earlier state \<open>st\<close>.\<close>

definition new_events :: "state \<Rightarrow> state \<Rightarrow> event list" where
  "new_events st st' = drop (length (trace st)) (trace st')"

fun is_reduce_event :: "event \<Rightarrow> bool" where
  "is_reduce_event (Invoke (Reduce k)) = True"
| "is_reduce_event (Yield v) = True"
| "is_reduce_event e = False"

fun is_map_call :: "event \<Rightarrow> bool" where
  "is_map_call (Invoke (Map k v)) = True"
| "is_map_call e = False"

fun is_close_call :: "event \<Rightarrow> bool" where
  "is_close_call (Invoke Close_mapper) = True"
| "is_close_call (Invoke Close_record_reader) = True"
| "is_close_call (Invoke Close_record_writer) = True"
| "is_close_call (Invoke Close_reducer) = True"
| "is_close_call e = False"

fun is_recv :: "event \<Rightarrow> bool" where
  "is_recv (Recv c) = True"
| "is_recv e = False"

text \<open>
  The components that are present in a state, in the order mapper, record reader, record
  writer, reducer, each with the call that closes it and with what its \<^verbatim>\<open>close\<close> does.
\<close>

definition active_closes :: "state \<Rightarrow> (call \<times> user_result) list" where
  "active_closes st =
     (case mapper st of Some m \<Rightarrow> [(Close_mapper, mapper_close m)] | None \<Rightarrow> [])
     @ (case record_reader st of
          Some r \<Rightarrow> [(Close_record_reader, reader_close r)] | None \<Rightarrow> [])
     @ (case record_writer st of
          Some w \<Rightarrow> [(Close_record_writer, writer_close w)] | None \<Rightarrow> [])
     @ (case reducer st of Some r \<Rightarrow> [(Close_reducer, reducer_close r)] | None \<Rightarrow> [])"

text \<open>
  Of a list of closes, those up to and including the first that raises; the exception
  of that one; and the events that closing them adds.
\<close>

fun until_raise :: "(call \<times> user_result) list \<Rightarrow> (call \<times> user_result) list" where
  "until_raise [] = []"
| "until_raise (cr # crs) = cr # (if snd (snd cr) = None then until_raise crs else [])"

fun first_raise :: "(call \<times> user_result) list \<Rightarrow> error option" where
  "first_raise [] = None"
| "first_raise (cr # crs) = (if snd (snd cr) = None then first_raise crs else snd (snd cr))"

definition close_events :: "state \<Rightarrow> (call \<times> user_result) list \<Rightarrow> event list" where
  "close_events st crs =
     concat (map (\<lambda>cr. Invoke (fst cr) # map (emit_event st) (fst (snd cr))) crs)"

text \<open>
  Two states are the same task when they differ at most in the current key, the current
  value and the trace. The events of a run of the map loop over the records \<open>rs\<close>: for
  each record the call of \<^verbatim>\<open>map\<close> and what that call emits.
\<close>

definition same_task :: "state \<Rightarrow> state \<Rightarrow> bool" where
  "same_task st st' \<longleftrightarrow>
     st'\<lparr>ctx_key := ctx_key st, ctx_value := ctx_value st, trace := trace st\<rparr> = st"

definition map_events :: "state \<Rightarrow> mapper_class \<Rightarrow> (pyobj \<times> pyobj) list \<Rightarrow> event list" where
  "map_events st m rs =
     concat (map (\<lambda>kv. Invoke (Map (fst kv) (snd kv))
                        # map (emit_event st) (fst (map_op m (fst kv) (snd kv)))) rs)"

text \<open>
  What holds of the context in every configuration a run reaches: the job configuration
  is still the plain \<^verbatim>\<open>{}\<close> of \<^verbatim>\<open>Context.__init__\<close>, and a partitioner is present
  only with a number of reduces that is at least 1.
\<close>

definition task_invariant :: "state \<Rightarrow> bool" where
  "task_invariant st \<longleftrightarrow>
     job_conf st = None
     \<and> (partitioner st \<noteq> None \<longrightarrow> (\<exists>n. nred st = Some n \<and> 1 \<le> n))"


text \<open>
  The \<^verbatim>\<open>close\<close> calls \<open>crs\<close> made one after the other from the result \<open>r\<close> of the
  calls before them, as \<open>Context_close\<close> makes them; used to unfold \<open>Context_close\<close>.
\<close>

fun close_all ::
  "(call \<times> user_result) list \<Rightarrow> error option \<times> state \<Rightarrow> error option \<times> state" where
  "close_all [] r = r"
| "close_all (cr # crs) r = close_all crs (close_component (fst cr) (Some (snd cr)) r)"

section \<open>Example components\<close>

text \<open>
  Components and an environment on which the theorems below are instantiated: a mapper
  that emits its input, a mapper whose \<^verbatim>\<open>close\<close> raises, a reducer that emits one pair
  for each key, a partitioner, a record reader with two records, a record writer, and
  two factories, for a reduce task without a record writer and for a map task with a
  record reader.
\<close>

definition example_env :: environment where
  "example_env =
     \<lparr>create_digest = (\<lambda>pw msg. pw @ msg),
      loads = (\<lambda>b. Inr (Obj b)),
      read_string = (\<lambda>b. Inr b),
      FileSplit_fromstream = (\<lambda>b. Inr (FileSplit b 0 0)),
      env_mrv1_to_mrv2 = [],
      env_mrv2_to_mrv1 = []\<rparr>"

definition example_mapper :: mapper_class where
  "example_mapper = \<lparr>map_op = (\<lambda>k v. ([(k, v)], None)), mapper_close = ([], None)\<rparr>"

definition failing_mapper :: mapper_class where
  "failing_mapper =
     \<lparr>map_op = (\<lambda>k v. ([(k, v)], None)), mapper_close = ([], Some (UserError ''close''))\<rparr>"

definition example_reducer :: reducer_class where
  "example_reducer =
     \<lparr>reduce_op = (\<lambda>k vs. ([(k, Obj ''n'')], None)), reducer_close = ([], None)\<rparr>"

definition example_partitioner :: partitioner_class where
  "example_partitioner = \<lparr>partition_op = (\<lambda>k n. 0)\<rparr>"

definition example_reader :: record_reader_class where
  "example_reader =
     \<lparr>records = [(Obj ''k1'', Obj ''v1''), (Obj ''k2'', Obj ''v2'')],
      reader_close = ([], None)\<rparr>"

definition example_writer :: record_writer_class where
  "example_writer = \<lparr>writer_close = ([], None)\<rparr>"

definition reduce_factory :: factory where
  "reduce_factory =
     \<lparr>mclass = example_mapper, rclass = Some example_reducer,
      pclass = Some example_partitioner, rwclass = None, rrclass = None\<rparr>"

definition map_factory :: factory where
  "map_factory =
     \<lparr>mclass = example_mapper, rclass = None,
      pclass = Some example_partitioner, rwclass = None, rrclass = Some example_reader\<rparr>"

text \<open>The state in which the engine has authenticated on a channel without a secret.\<close>

definition authenticated :: "factory \<Rightarrow> state" where
  "authenticated f = (initial_state f default_kwargs None)\<lparr>auth_done := True\<rparr>"

section \<open>Properties of the job configuration\<close>

subsection \<open>Dictionaries\<close>

lemma zip_slices_flat: "zip (slice_even (flat ps)) (slice_odd (flat ps)) = ps"
  by (induction ps) auto

lemma even_length_flat: "even (length (flat ps))"
  by (induction ps) auto

lemma flat_zip_slices: "even (length vs) \<Longrightarrow> flat (zip (slice_even vs) (slice_odd vs)) = vs"
  by (induction vs rule: slice_even.induct) auto

lemma dict_update_snoc: "dict_update d (ps @ [(k, v)]) = dict_setitem (dict_update d ps) k v"
  by (simp add: dict_update_def)

lemma map_of_dict_update: "map_of (dict_update d ps) = map_of d ++ map_of (rev ps)"
proof (induction ps rule: rev_induct)
  case Nil
  show ?case by (simp add: dict_update_def)
next
  case (snoc kv ps)
  obtain k v where kv: "kv = (k, v)" by (cases kv)
  show ?case
    unfolding kv dict_update_snoc dict_setitem_def
    by (simp add: update_conv' snoc.IH map_add_upd_left fun_eq_iff map_add_def)
qed

lemma keys_dict_update:
  "map fst (dict_update [] ps) = rev (remdups (rev (map fst ps)))"
proof (induction ps rule: rev_induct)
  case Nil
  show ?case by (simp add: dict_update_def)
next
  case (snoc kv ps)
  obtain k v where kv: "kv = (k, v)" by (cases kv)
  have s: "set (map fst (dict_update [] ps)) = fst ` set ps"
    by (simp add: snoc.IH)
  show ?case
    unfolding kv dict_update_snoc dict_setitem_def
    using s by (simp add: update_keys snoc.IH)
qed

lemma distinct_dict_update: "distinct (map fst d) \<Longrightarrow> distinct (map fst (dict_update d ps))"
  by (induction ps rule: rev_induct) (auto simp: dict_update_def dict_setitem_def distinct_update)

lemma update_new_key: "k \<notin> fst ` set d \<Longrightarrow> AList.update k v d = d @ [(k, v)]"
  by (induction d) auto

lemma dict_of_distinct: "distinct (map fst ps) \<Longrightarrow> dict_update [] ps = ps"
proof (induction ps rule: rev_induct)
  case Nil
  show ?case by (simp add: dict_update_def)
next
  case (snoc kv ps)
  obtain k v where kv: "kv = (k, v)" by (cases kv)
  from snoc.prems have d: "distinct (map fst ps)" and n: "k \<notin> fst ` set ps"
    by (auto simp: kv)
  show ?case
    unfolding kv dict_update_snoc dict_setitem_def
    by (simp add: snoc.IH [OF d] update_new_key [OF n])
qed

lemma dict_update_disjoint:
  "distinct (map fst e) \<Longrightarrow> fst ` set e \<inter> fst ` set d = {} \<Longrightarrow> dict_update d e = d @ e"
proof (induction e rule: rev_induct)
  case Nil
  show ?case by (simp add: dict_update_def)
next
  case (snoc kv e)
  obtain k v where kv: "kv = (k, v)" by (cases kv)
  from snoc.prems have 1: "distinct (map fst e)" and 2: "fst ` set e \<inter> fst ` set d = {}"
    and 3: "k \<notin> fst ` set e" and 4: "k \<notin> fst ` set d"
    by (auto simp: kv)
  have "k \<notin> fst ` set (d @ e)" using 3 4 by auto
  then show ?case
    unfolding kv dict_update_snoc dict_setitem_def
    by (simp add: snoc.IH [OF 1 2] update_new_key del: set_append)
qed

lemma filter_key_absent:
  "k \<notin> fst ` set d \<Longrightarrow> filter (\<lambda>kv. fst kv = k) d = []"
  by (force simp: filter_empty_conv)

lemma filter_key_distinct:
  "distinct (map fst d) \<Longrightarrow> map_of d k = Some v \<Longrightarrow> filter (\<lambda>kv. fst kv = k) d = [(k, v)]"
proof (induction d)
  case Nil
  then show ?case by simp
next
  case (Cons x d)
  show ?case
  proof (cases "fst x = k")
    case True
    with Cons.prems have x: "x = (k, v)" by (cases x) auto
    have "k \<notin> fst ` set d" using Cons.prems True by auto
    then have "filter (\<lambda>kv. fst kv = k) d = []" by (rule filter_key_absent)
    with x show ?thesis by simp
  next
    case False
    with Cons show ?thesis by auto
  qed
qed

subsection \<open>Mirroring across versions only adds keys\<close>

lemma mirror_key_keeps:
  assumes "distinct (map fst ext)" "fst ` set ext \<inter> fst ` set self = {}"
  shows "distinct (map fst (mirror_key table self kv ext))
       \<and> fst ` set (mirror_key table self kv ext) \<inter> fst ` set self = {}"
proof (cases "dict_get table (fst kv)")
  case None
  then show ?thesis using assms by (simp add: mirror_key_def)
next
  case (Some a)
  show ?thesis
  proof (cases "dict_contains self a")
    case True
    then show ?thesis using assms Some by (simp add: mirror_key_def)
  next
    case False
    then have "a \<notin> fst ` set self"
      by (simp add: dict_contains_def map_of_eq_None_iff)
    then show ?thesis using assms Some False
      by (simp add: mirror_key_def dict_setitem_def distinct_update dom_update)
  qed
qed

lemma mirror_fold_keeps:
  assumes "distinct (map fst ext)" "fst ` set ext \<inter> fst ` set self = {}"
  shows "distinct (map fst (fold (\<lambda>kv ext. mirror_key t2 self kv (mirror_key t1 self kv ext)) xs ext))
       \<and> fst ` set (fold (\<lambda>kv ext. mirror_key t2 self kv (mirror_key t1 self kv ext)) xs ext)
           \<inter> fst ` set self = {}"
  using assms
proof (induction xs arbitrary: ext)
  case Nil
  then show ?case by simp
next
  case (Cons x xs)
  have 1: "distinct (map fst (mirror_key t1 self x ext))
         \<and> fst ` set (mirror_key t1 self x ext) \<inter> fst ` set self = {}"
    using mirror_key_keeps [OF Cons.prems] .
  have 2: "distinct (map fst (mirror_key t2 self x (mirror_key t1 self x ext)))
         \<and> fst ` set (mirror_key t2 self x (mirror_key t1 self x ext)) \<inter> fst ` set self = {}"
    using mirror_key_keeps [OF conjunct1 [OF 1] conjunct2 [OF 1]] .
  show ?case
    using Cons.IH [OF conjunct1 [OF 2] conjunct2 [OF 2]] by simp
qed

lemma mirror_ext_keys:
  "distinct (map fst (mirror_ext t1 t2 self))
   \<and> fst ` set (mirror_ext t1 t2 self) \<inter> fst ` set self = {}"
  unfolding mirror_ext_def using mirror_fold_keeps [of "[]" self] by simp

lemma mirror_conf_append:
  "mirror_conf_across_versions t1 t2 self = self @ mirror_ext t1 t2 self"
  unfolding mirror_conf_across_versions_def
  using mirror_ext_keys [of t1 t2 self] by (simp add: dict_update_disjoint)

lemma mirror_fold_none:
  assumes "\<forall>k \<in> fst ` set xs. dict_get t1 k = None \<and> dict_get t2 k = None"
  shows "fold (\<lambda>kv ext. mirror_key t2 self kv (mirror_key t1 self kv ext)) xs ext = ext"
  using assms by (induction xs arbitrary: ext) (simp_all add: mirror_key_def)

lemma mirror_ext_none:
  "\<forall>k \<in> fst ` set self. dict_get t1 k = None \<and> dict_get t2 k = None \<Longrightarrow>
   mirror_ext t1 t2 self = []"
  unfolding mirror_ext_def by (rule mirror_fold_none)

lemma JobConf_init_flat:
  "JobConf_init t1 t2 (Sequence (flat ps)) = Inr (dict_of ps @ mirror_ext t1 t2 (dict_of ps))"
  by (simp add: JobConf_init_def even_length_flat zip_slices_flat mirror_conf_append)

subsection \<open>Construction from a flat sequence\<close>

text \<open>
  Claim C8, as the code has it. For every flat sequence \<open>[k1, v1, k2, v2, ...]\<close>
  construction succeeds. The mapping lists first the distinct keys of the sequence, in the
  order of their first occurrences, each with the value of its last occurrence (that is
  \<open>dict_of ps\<close>), and after them the entries that mirroring across versions fills in,
  whose keys are not keys of the sequence. When the keys of the sequence are distinct and
  none of them has an entry in the two conversion tables, the mapping is the list of pairs
  of the sequence, in order. For every sequence of odd length construction fails with
  \<open>PydoopError\<close>.
\<close>

theorem JobConf_init_flat_sequence:
  "JobConf_init t1 t2 (Sequence (flat ps))
     = Inr (dict_of ps @ mirror_ext t1 t2 (dict_of ps))
   \<and> dict_keys (dict_of ps) = rev (remdups (rev (map fst ps)))
   \<and> (\<forall>k. dict_get (dict_of ps) k = map_of (rev ps) k)
   \<and> set (dict_keys (mirror_ext t1 t2 (dict_of ps))) \<inter> fst ` set ps = {}
   \<and> (distinct (map fst ps)
        \<and> (\<forall>k \<in> fst ` set ps. dict_get t1 k = None \<and> dict_get t2 k = None)
      \<longrightarrow> JobConf_init t1 t2 (Sequence (flat ps)) = Inr ps)
   \<and> (odd (length vs) \<longrightarrow> JobConf_init t1 t2 (Sequence vs) = Inl PydoopError)"
proof -
  have keys: "map fst (dict_of ps) = rev (remdups (rev (map fst ps)))"
    by (simp add: dict_of_def keys_dict_update)
  have a: "JobConf_init t1 t2 (Sequence (flat ps))
     = Inr (dict_of ps @ mirror_ext t1 t2 (dict_of ps))"
    by (rule JobConf_init_flat)
  have b: "dict_keys (dict_of ps) = rev (remdups (rev (map fst ps)))"
    by (simp add: dict_keys_def keys)
  have c: "\<forall>k. dict_get (dict_of ps) k = map_of (rev ps) k"
    by (simp add: dict_get_def dict_of_def map_of_dict_update)
  have "fst ` set (dict_of ps) = fst ` set ps"
    using keys by (metis set_map set_remdups set_rev)
  then have d: "set (dict_keys (mirror_ext t1 t2 (dict_of ps))) \<inter> fst ` set ps = {}"
    using mirror_ext_keys [of t1 t2 "dict_of ps"] by (simp add: dict_keys_def)
  have e: "JobConf_init t1 t2 (Sequence (flat ps)) = Inr ps"
    if "distinct (map fst ps)"
      and "\<forall>k \<in> fst ` set ps. dict_get t1 k = None \<and> dict_get t2 k = None"
  proof -
    have "dict_of ps = ps" using that(1) by (simp add: dict_of_def dict_of_distinct)
    then show ?thesis using a that(2) by (simp add: mirror_ext_none)
  qed
  have f: "odd (length vs) \<longrightarrow> JobConf_init t1 t2 (Sequence vs) = Inl PydoopError"
    by (simp add: JobConf_init_def)
  show ?thesis using a b c d e f by blast
qed

theorem JobConf_init_flat_sequence_witness:
  "JobConf_init [(''x'', ''y'')] [] (Sequence [''b'', ''1'', ''a'', ''2''])
     = Inr [(''b'', ''1''), (''a'', ''2'')]
   \<and> JobConf_init [(''x'', ''y'')] [] (Sequence [''b'']) = Inl PydoopError"
proof -
  let ?ps = "[(''b'', ''1''), (''a'', ''2'')]"
  let ?t1 = "[(''x'', ''y'')]"
  have h: "distinct (map fst ?ps)
     \<and> (\<forall>k \<in> fst ` set ?ps. dict_get ?t1 k = None \<and> dict_get [] k = None)"
    by (simp add: dict_get_def)
  have o: "odd (length [''b''])" by simp
  have "JobConf_init ?t1 [] (Sequence (flat ?ps)) = Inr ?ps"
    using JobConf_init_flat_sequence [of ?t1 "[]" ?ps "[''b'']"] h by blast
  moreover have "JobConf_init ?t1 [] (Sequence [''b'']) = Inl PydoopError"
    using JobConf_init_flat_sequence [of ?t1 "[]" ?ps "[''b'']"] o by blast
  ultimately show ?thesis by simp
qed

text \<open>
  Claim C8 as it is written fails in two ways. A key that is repeated keeps one entry, so
  the mapping built from \<open>[a, 1, a, 2]\<close> is not the set of the two pairs. And a key that
  has an entry in a conversion table brings a second key into the mapping: with the pair
  of names \<^verbatim>\<open>mapred.job.name\<close> and \<^verbatim>\<open>mapreduce.job.name\<close> in the tables, the mapping
  built from one pair has two entries.
\<close>

theorem JobConf_init_not_the_pairs:
  "JobConf_init [] [] (Sequence [''a'', ''1'', ''a'', ''2'']) = Inr [(''a'', ''2'')]
   \<and> set [(''a'', ''2'')] \<noteq> {(''a'', ''1''), (''a'', ''2'')}
   \<and> JobConf_init [(''mapred.job.name'', ''mapreduce.job.name'')]
        [(''mapreduce.job.name'', ''mapred.job.name'')]
        (Sequence [''mapred.job.name'', ''x''])
      = Inr [(''mapred.job.name'', ''x''), (''mapreduce.job.name'', ''x'')]"
  by (simp add: JobConf_init_def dict_of_def dict_update_def dict_setitem_def
        mirror_conf_across_versions_def mirror_ext_def mirror_key_def dict_get_def
        dict_contains_def)

text \<open>
  Claim C10. Let a flat key/value sequence have its last pair for the key \<open>k\<close> at
  \<open>(k, v)\<close>: the pairs are \<open>pre @ (k, v) # post\<close> and \<open>k\<close> is not a key of \<open>post\<close>
  (it may be a key of \<open>pre\<close> any number of times). Then construction succeeds, the
  mapping gives \<open>v\<close> for \<open>k\<close>, and \<open>(k, v)\<close> is its only entry for \<open>k\<close>: the values
  paired with earlier occurrences are gone.
\<close>

theorem JobConf_init_repeated_key:
  assumes "k \<notin> fst ` set post"
  shows "\<exists>jc. JobConf_init t1 t2 (Sequence (flat (pre @ (k, v) # post))) = Inr jc
            \<and> dict_get jc k = Some v
            \<and> filter (\<lambda>kv. fst kv = k) jc = [(k, v)]"
proof -
  let ?ps = "pre @ (k, v) # post"
  let ?d = "dict_of ?ps"
  let ?e = "mirror_ext t1 t2 ?d"
  have init: "JobConf_init t1 t2 (Sequence (flat ?ps)) = Inr (?d @ ?e)"
    by (rule JobConf_init_flat)
  have "map_of (rev post) k = None"
    using assms by (simp add: map_of_eq_None_iff)
  then have look: "map_of ?d k = Some v"
    by (simp add: dict_of_def map_of_dict_update map_add_def)
  have dist: "distinct (map fst ?d)"
    unfolding dict_of_def by (rule distinct_dict_update) simp
  have "k \<in> fst ` set ?d" using look map_of_eq_None_iff [of ?d k] by auto
  then have out: "k \<notin> fst ` set ?e"
    using mirror_ext_keys [of t1 t2 ?d] by blast
  have 1: "filter (\<lambda>kv. fst kv = k) (?d @ ?e) = [(k, v)]"
    using filter_key_distinct [OF dist look] filter_key_absent [OF out] by simp
  have "map_of ?e k = None" using out by (simp add: map_of_eq_None_iff)
  then have 2: "dict_get (?d @ ?e) k = Some v"
    using look by (simp add: dict_get_def map_add_def)
  show ?thesis using init 1 2 by blast
qed

theorem JobConf_init_repeated_key_witness:
  "\<exists>jc. JobConf_init [] [] (Sequence [''a'', ''1'', ''b'', ''2'', ''a'', ''3'', ''c'', ''4'']) = Inr jc
      \<and> dict_get jc ''a'' = Some ''3''
      \<and> filter (\<lambda>kv. fst kv = ''a'') jc = [(''a'', ''3'')]"
  using JobConf_init_repeated_key
    [of "''a''" "[(''c'', ''4'')]" "[]" "[]" "[(''a'', ''1''), (''b'', ''2'')]" "''3''"]
  by simp

subsection \<open>The boolean getter\<close>

lemma py_lower_strip_literals:
  "py_lower (py_strip ''true'') = ''true''"
  "py_lower (py_strip ''TRUE'') = ''true''"
  "py_lower (py_strip ''True'') = ''true''"
  "py_lower (py_strip ''false'') = ''false''"
  "py_lower (py_strip ''FALSE'') = ''false''"
  by code_simp+

text \<open>
  Claim C7, as the code has it. Let the string \<open>s\<close> be stored under the key, and let
  the default that was passed be another value than \<open>s\<close>. Then \<open>get_bool\<close> strips the
  whitespace around \<open>s\<close> and maps the rest to lower case: the result is true for
  \<open>true\<close> and false for \<open>false\<close>; for anything else it is the default, and a fatal
  \<open>RuntimeError\<close> when no default was passed (the default is \<^verbatim>\<open>None\<close>). In particular
  the strings \<open>true\<close>, \<open>TRUE\<close>, \<open>True\<close> give true and \<open>false\<close>, \<open>FALSE\<close> give
  false.
\<close>

theorem get_bool_stored_string:
  assumes "dict_get jc k = Some s" and "d \<noteq> PyStr s"
  shows "get_bool jc k d =
           (if py_lower (py_strip s) = ''true'' then Inr (PyBool True)
            else if py_lower (py_strip s) = ''false'' then Inr (PyBool False)
            else if d = PyNone
              then Inl (RuntimeError (InvalidBoolString (py_lower (py_strip s))))
            else Inr d)
         \<and> (s \<in> {''true'', ''TRUE'', ''True''} \<longrightarrow> get_bool jc k d = Inr (PyBool True))
         \<and> (s \<in> {''false'', ''FALSE''} \<longrightarrow> get_bool jc k d = Inr (PyBool False))"
proof -
  have v: "JobConf_get jc k d = PyStr s"
    using assms(1) by (simp add: JobConf_get_def)
  have main: "get_bool jc k d =
           (if py_lower (py_strip s) = ''true'' then Inr (PyBool True)
            else if py_lower (py_strip s) = ''false'' then Inr (PyBool False)
            else if d = PyNone
              then Inl (RuntimeError (InvalidBoolString (py_lower (py_strip s))))
            else Inr d)"
    unfolding get_bool_def v using assms(2) by (auto simp: Let_def)
  have t: "s \<in> {''true'', ''TRUE'', ''True''} \<Longrightarrow> py_lower (py_strip s) = ''true''"
    using py_lower_strip_literals by auto
  have f: "s \<in> {''false'', ''FALSE''} \<Longrightarrow> py_lower (py_strip s) = ''false''"
    using py_lower_strip_literals by auto
  have nf: "s \<in> {''false'', ''FALSE''} \<Longrightarrow> py_lower (py_strip s) \<noteq> ''true''"
    using f by auto
  show ?thesis using main t f nf by simp
qed

theorem get_bool_stored_string_witness:
  "get_bool [(''k'', ''  False '')] ''k'' PyNone = Inr (PyBool False)
   \<and> get_bool [(''k'', ''TRUE'')] ''k'' (PyBool False) = Inr (PyBool True)
   \<and> get_bool [(''k'', ''yes'')] ''k'' (PyBool False) = Inr (PyBool False)
   \<and> get_bool [(''k'', ''yes'')] ''k'' (PyStr ''no'') = Inr (PyStr ''no'')
   \<and> get_bool [(''k'', ''yes'')] ''k'' PyNone = Inl (RuntimeError (InvalidBoolString ''yes''))"
proof -
  have h: "dict_get [(''k'', s)] ''k'' = Some s" for s :: string
    by (simp add: dict_get_def)
  have n: "PyNone \<noteq> PyStr s" "PyBool False \<noteq> PyStr s" for s
    by simp_all
  have m: "PyStr ''no'' \<noteq> PyStr ''yes''"
    by simp
  have e: "py_lower (py_strip ''  False '') = ''false''"
    "py_lower (py_strip ''TRUE'') = ''true''" "py_lower (py_strip ''yes'') = ''yes''"
    by code_simp+
  show ?thesis
    using get_bool_stored_string [OF h n(1), of "''  False ''"]
      get_bool_stored_string [OF h n(2), of "''TRUE''"]
      get_bool_stored_string [OF h n(2), of "''yes''"]
      get_bool_stored_string [OF h m]
      get_bool_stored_string [OF h n(1), of "''yes''"]
    by (simp add: e)
qed

text \<open>
  Claim C7 as it is written fails: the stored string \<open>'' true''\<close>, with a leading
  space, is not \<open>true\<close> or \<open>false\<close> in any case of its letters, and \<open>get_bool\<close> gives
  true for it, not the default.
\<close>

theorem get_bool_strips_whitespace:
  "get_bool [(''k'', '' true'')] ''k'' (PyBool False) = Inr (PyBool True)
   \<and> py_lower '' true'' \<noteq> ''true'' \<and> py_lower '' true'' \<noteq> ''false''"
proof -
  have e: "py_lower (py_strip '' true'') = ''true''" "py_lower '' true'' = '' true''"
    by code_simp+
  show ?thesis
    by (simp add: get_bool_def JobConf_get_def dict_get_def e)
qed

section \<open>Properties of the engine\<close>

subsection \<open>Closing the context\<close>

lemma emit_event_trace [simp]: "emit_event (st\<lparr>trace := t\<rparr>) = emit_event st"
  by (rule ext) (auto simp: emit_event_def Let_def split: option.splits)

lemma foldl_emit: "foldl emit st es = st\<lparr>trace := trace st @ map (emit_event st) es\<rparr>"
proof (induction es arbitrary: st)
  case Nil
  show ?case by simp
next
  case (Cons kv es)
  have "foldl emit st (kv # es) = foldl emit (emit st kv) es" by simp
  also have "\<dots> = (emit st kv)\<lparr>trace := trace (emit st kv) @ map (emit_event (emit st kv)) es\<rparr>"
    by (rule Cons.IH)
  also have "\<dots> = st\<lparr>trace := trace st @ map (emit_event st) (kv # es)\<rparr>"
    by (simp add: emit_def log_def)
  finally show ?case .
qed

lemma perform_eq:
  "perform st r = (snd r, st\<lparr>trace := trace st @ map (emit_event st) (fst r)\<rparr>)"
  by (simp add: perform_def foldl_emit)

lemma close_component_None [simp]: "close_component c None r = r"
  by (simp add: close_component_def split: option.splits)

lemma close_all_append: "close_all (xs @ ys) r = close_all ys (close_all xs r)"
  by (induction xs arbitrary: r) auto

lemma Context_close_close_all:
  "Context_close st =
     (fst (close_all (active_closes st) (None, st)),
      log (Sent DONE) (snd (close_all (active_closes st) (None, st))))"
  by (simp add: Context_close_def active_closes_def close_all_append Let_def
      split: option.splits)

lemma close_all_raised: "close_all crs (Some e, st) = (Some e, st)"
  by (induction crs) (auto simp: close_component_def)

lemma close_all_eq:
  "close_all crs (None, st\<lparr>trace := t\<rparr>) =
     (first_raise crs, st\<lparr>trace := t @ close_events st (until_raise crs)\<rparr>)"
proof (induction crs arbitrary: t)
  case Nil
  show ?case by (simp add: close_events_def)
next
  case (Cons cr crs)
  obtain c es x where cr: "cr = (c, es, x)" by (cases cr)
  show ?case
  proof (cases x)
    case None
    then show ?thesis
      using Cons.IH [of "t @ Invoke c # map (emit_event st) es"]
      by (simp add: cr close_component_def perform_eq log_def close_events_def)
  next
    case (Some e)
    then show ?thesis
      by (simp add: cr close_component_def perform_eq log_def close_events_def close_all_raised)
  qed
qed

lemma Context_close_eq:
  "Context_close st =
     (first_raise (active_closes st),
      st\<lparr>trace := trace st @ close_events st (until_raise (active_closes st)) @ [Sent DONE]\<rparr>)"
  using close_all_eq [where crs = "active_closes st" and st = st and t = "trace st"]
  by (simp add: Context_close_close_all log_def)

lemma emit_event_not_DONE [simp]: "emit_event st kv \<noteq> Sent DONE"
  by (auto simp: emit_event_def Let_def split: option.splits)

lemma emit_event_not_close [simp]: "\<not> is_close_call (emit_event st kv)"
  by (auto simp: emit_event_def Let_def split: option.splits)

lemma active_closes_are_closes:
  "cr \<in> set (active_closes st) \<Longrightarrow> is_close_call (Invoke (fst cr))"
  by (auto simp: active_closes_def split: option.splits)

lemma distinct_active_closes: "distinct (map fst (active_closes st))"
  by (simp add: active_closes_def split: option.splits)

lemma set_until_raise: "set (until_raise crs) \<subseteq> set crs"
  by (induction crs) auto

lemma filter_close_events:
  "\<forall>cr \<in> set crs. is_close_call (Invoke (fst cr)) \<Longrightarrow>
   filter is_close_call (close_events st crs) = map (\<lambda>cr. Invoke (fst cr)) crs"
  by (induction crs) (simp_all add: close_events_def filter_empty_conv)

lemma DONE_not_emitted: "Sent DONE \<notin> emit_event st ` A"
proof
  assume "Sent DONE \<in> emit_event st ` A"
  then obtain kv where "Sent DONE = emit_event st kv" by blast
  then show False using emit_event_not_DONE [of st kv] by simp
qed

lemma DONE_not_in_close_events: "Sent DONE \<notin> set (close_events st crs)"
  by (induction crs) (simp_all add: close_events_def DONE_not_emitted)

lemma until_raise_all: "first_raise crs = None \<Longrightarrow> until_raise crs = crs"
  by (induction crs) (auto split: if_splits)

lemma until_raise_split:
  "first_raise pre = None \<Longrightarrow> snd (snd cr) = Some e \<Longrightarrow>
   until_raise (pre @ cr # post) = pre @ [cr] \<and> first_raise (pre @ cr # post) = Some e"
  by (induction pre) (auto split: if_splits)

lemma new_events_Context_close:
  "new_events st (snd (Context_close st))
     = close_events st (until_raise (active_closes st)) @ [Sent DONE]"
  by (simp add: Context_close_eq new_events_def)

text \<open>
  Claim C4. \<^verbatim>\<open>Context.close()\<close> writes the events \<open>es\<close> of the teardown and then
  \<^verbatim>\<open>DONE\<close>, once and last, in every state, whether a \<^verbatim>\<open>close\<close> raises or not. The
  \<^verbatim>\<open>close\<close> calls among \<open>es\<close> are those of the components that are present, in the
  order mapper, record reader, record writer, reducer (the list \<open>active_closes\<close>), up to
  and including the first one that raises; when none raises they are all of them. What
  \<^verbatim>\<open>Context.close()\<close> raises is what that first \<^verbatim>\<open>close\<close> raised.
\<close>

theorem Context_close_teardown_then_done:
  "\<exists>es. new_events st (snd (Context_close st)) = es @ [Sent DONE]
      \<and> Sent DONE \<notin> set es
      \<and> filter is_close_call es = map (\<lambda>cr. Invoke (fst cr)) (until_raise (active_closes st))
      \<and> (first_raise (active_closes st) = None
           \<longrightarrow> until_raise (active_closes st) = active_closes st)
      \<and> fst (Context_close st) = first_raise (active_closes st)"
proof -
  let ?es = "close_events st (until_raise (active_closes st))"
  have "\<forall>cr \<in> set (until_raise (active_closes st)). is_close_call (Invoke (fst cr))"
    using set_until_raise active_closes_are_closes by blast
  then have "filter is_close_call ?es
     = map (\<lambda>cr. Invoke (fst cr)) (until_raise (active_closes st))"
    by (rule filter_close_events)
  moreover have "fst (Context_close st) = first_raise (active_closes st)"
    by (simp add: Context_close_eq)
  ultimately show ?thesis
    using new_events_Context_close [of st] DONE_not_in_close_events [of st] until_raise_all
    by blast
qed

theorem Context_close_teardown_then_done_witness:
  "\<exists>es. new_events ((authenticated map_factory)
                       \<lparr>mapper := Some example_mapper, record_reader := Some example_reader,
                          record_writer := Some example_writer,
                          reducer := Some example_reducer\<rparr>)
          (snd (Context_close ((authenticated map_factory)
                       \<lparr>mapper := Some example_mapper, record_reader := Some example_reader,
                          record_writer := Some example_writer,
                          reducer := Some example_reducer\<rparr>)))
        = es @ [Sent DONE]
      \<and> filter is_close_call es
          = [Invoke Close_mapper, Invoke Close_record_reader, Invoke Close_record_writer,
             Invoke Close_reducer]"
  using Context_close_teardown_then_done
    [of "(authenticated map_factory)
           \<lparr>mapper := Some example_mapper, record_reader := Some example_reader,
              record_writer := Some example_writer, reducer := Some example_reducer\<rparr>"]
  by (auto simp: active_closes_def authenticated_def initial_state_def example_mapper_def
      example_reducer_def example_reader_def example_writer_def)

text \<open>
  Claim C9. Let the \<^verbatim>\<open>close\<close> of the component \<open>c\<close> raise \<open>e\<close>, after the components
  \<open>pre\<close> before it in the teardown order have closed without raising. Then
  \<^verbatim>\<open>Context.close()\<close> raises \<open>e\<close>; the \<^verbatim>\<open>close\<close> calls it has made are those of \<open>pre\<close>
  and of \<open>c\<close>, in this order, and no component of \<open>post\<close>, the ones after \<open>c\<close> in the
  teardown order, is closed; and \<^verbatim>\<open>DONE\<close> is still written, once and last.
\<close>

theorem Context_close_stops_at_first_failure:
  assumes "active_closes st = pre @ (c, r) # post"
    and "first_raise pre = None"
    and "snd r = Some e"
  shows "fst (Context_close st) = Some e
       \<and> filter is_close_call (new_events st (snd (Context_close st)))
           = map (\<lambda>cr. Invoke (fst cr)) (pre @ [(c, r)])
       \<and> (\<forall>cr \<in> set post. Invoke (fst cr) \<notin> set (new_events st (snd (Context_close st))))
       \<and> filter (\<lambda>e. e = Sent DONE) (new_events st (snd (Context_close st))) = [Sent DONE]
       \<and> last (new_events st (snd (Context_close st))) = Sent DONE"
proof -
  let ?new = "new_events st (snd (Context_close st))"
  have u: "until_raise (active_closes st) = pre @ [(c, r)]"
    and f: "first_raise (active_closes st) = Some e"
    using until_raise_split [OF assms(2), of "(c, r)" e post] assms(1,3) by simp_all
  have new: "?new = close_events st (pre @ [(c, r)]) @ [Sent DONE]"
    using new_events_Context_close [of st] u by simp
  have cl: "\<forall>cr \<in> set (pre @ [(c, r)]). is_close_call (Invoke (fst cr))"
  proof
    fix cr assume "cr \<in> set (pre @ [(c, r)])"
    then have "cr \<in> set (active_closes st)" unfolding assms(1) by auto
    then show "is_close_call (Invoke (fst cr))" by (rule active_closes_are_closes)
  qed
  have 1: "fst (Context_close st) = Some e"
    by (simp add: Context_close_eq f)
  have 2: "filter is_close_call ?new = map (\<lambda>cr. Invoke (fst cr)) (pre @ [(c, r)])"
    unfolding new using filter_close_events [OF cl, of st] by simp
  have 3: "Invoke (fst cr) \<notin> set ?new" if "cr \<in> set post" for cr
  proof
    assume "Invoke (fst cr) \<in> set ?new"
    moreover have "is_close_call (Invoke (fst cr))"
      using active_closes_are_closes [of cr st] assms(1) that by simp
    ultimately have "Invoke (fst cr) \<in> set (filter is_close_call ?new)" by simp
    then have "fst cr \<in> fst ` set (pre @ [(c, r)])" unfolding 2 by auto
    moreover have "fst cr \<in> fst ` set post" using that by simp
    ultimately show False
      using distinct_active_closes [of st] unfolding assms(1) by auto
  qed
  have 4: "filter (\<lambda>e. e = Sent DONE) ?new = [Sent DONE]"
    unfolding new using DONE_not_in_close_events [of st "pre @ [(c, r)]"]
    by (auto simp: filter_empty_conv)
  have 5: "last ?new = Sent DONE" unfolding new by simp
  show ?thesis using 1 2 3 4 5 by blast
qed

theorem Context_close_stops_at_first_failure_witness:
  "fst (Context_close ((authenticated map_factory)
          \<lparr>mapper := Some failing_mapper, record_reader := Some example_reader\<rparr>))
     = Some (UserError ''close'')
   \<and> filter is_close_call
        (new_events ((authenticated map_factory)
            \<lparr>mapper := Some failing_mapper, record_reader := Some example_reader\<rparr>)
          (snd (Context_close ((authenticated map_factory)
            \<lparr>mapper := Some failing_mapper, record_reader := Some example_reader\<rparr>))))
      = [Invoke Close_mapper]
   \<and> last (new_events ((authenticated map_factory)
            \<lparr>mapper := Some failing_mapper, record_reader := Some example_reader\<rparr>)
          (snd (Context_close ((authenticated map_factory)
            \<lparr>mapper := Some failing_mapper, record_reader := Some example_reader\<rparr>))))
      = Sent DONE"
proof -
  let ?st = "(authenticated map_factory)
            \<lparr>mapper := Some failing_mapper, record_reader := Some example_reader\<rparr>"
  have a: "active_closes ?st = [] @ (Close_mapper, mapper_close failing_mapper)
              # [(Close_record_reader, reader_close example_reader)]"
    by (simp add: active_closes_def authenticated_def initial_state_def)
  have b: "first_raise [] = None" by simp
  have c: "snd (mapper_close failing_mapper) = Some (UserError ''close'')"
    by (simp add: failing_mapper_def)
  show ?thesis
    using Context_close_stops_at_first_failure [OF a b c] by simp
qed

subsection \<open>Commands that end the run, and authentication\<close>

lemma resume_Raise: "resume fs (Raise e) st = Failed e st"
  by (induction fs) simp_all

lemma steps_append: "steps env cfg (xs @ ys) = steps env (steps env cfg xs) ys"
  by (simp add: steps_def)

lemma steps_Failed: "steps env (Failed e st) cs = Failed e st"
  by (induction cs) (simp_all add: steps_def step_def)

lemma steps_Finished: "steps env (Finished st) cs = Finished st"
  by (induction cs) (simp_all add: steps_def step_def)

lemma steps_Cons: "steps env cfg (c # cs) = steps env (step env cfg c) cs"
  by (simp add: steps_def)


text \<open>
  Claim C5. Let the engine, started in any configuration, still be running after the
  commands \<open>pre\<close>, in the state \<open>st\<close> and with the frames \<open>fs\<close> of the loops it is in
  (none before a task, those of the grouping loop during a reduce task). When the next
  command is \<^verbatim>\<open>ABORT\<close>, the run fails with a \<^verbatim>\<open>RuntimeError\<close>, whatever commands
  \<open>post\<close> follow, and the only event after \<open>st\<close> is the receipt of the \<^verbatim>\<open>ABORT\<close>: no
  \<^verbatim>\<open>DONE\<close> is written, no \<^verbatim>\<open>close\<close> of a component is called and no later command is
  read.
\<close>

theorem abort_is_fatal:
  assumes "steps env cfg pre = Running fs st"
  shows "run env cfg (pre @ ABORT # post)
           = Failed (RuntimeError (if auth_done st then ReceivedAbort
                                   else ReceivedBeforeAuthentication 9))
               (log (Recv ABORT) st)
       \<and> new_events st (state_of (run env cfg (pre @ ABORT # post))) = [Recv ABORT]"
proof -
  have "step env (Running fs st) ABORT
          = Failed (RuntimeError (if auth_done st then ReceivedAbort
                                   else ReceivedBeforeAuthentication 9))
               (log (Recv ABORT) st)"
    by (simp add: step_def protocol_next_def resume_Raise log_def)
  then have "run env cfg (pre @ ABORT # post)
           = Failed (RuntimeError (if auth_done st then ReceivedAbort
                                   else ReceivedBeforeAuthentication 9))
               (log (Recv ABORT) st)"
    by (simp add: run_def steps_append steps_Cons assms steps_Failed end_of_stream_def)
  then show ?thesis by (simp add: new_events_def log_def)
qed

theorem abort_is_fatal_witness:
  "\<exists>st. run_task example_env reduce_factory default_kwargs None
          ([AUTHENTICATION_REQ [] [], RUN_REDUCE 0 1, REDUCE_KEY ''a'', REDUCE_VALUE ''1'']
             @ ABORT # [REDUCE_VALUE ''2'', CLOSE])
        = Failed (RuntimeError ReceivedAbort) st
       \<and> last (trace st) = Recv ABORT
       \<and> Sent DONE \<notin> set (trace st)"
proof -
  let ?pre = "[AUTHENTICATION_REQ [] [], RUN_REDUCE 0 1, REDUCE_KEY ''a'', REDUCE_VALUE ''1'']"
  let ?cfg = "Running [] (initial_state reduce_factory default_kwargs None)"
  obtain fs st where
    s: "steps example_env ?cfg ?pre = Running fs st"
    and a: "auth_done st" and d: "Sent DONE \<notin> set (trace st)"
    by (simp add: steps_def step_def protocol_next_def verify_digest_def run_reduce_def
        create_reducer_def setup_record_writer_def create_record_writer_def
        deserialize_def new_group_def log_def
        initial_state_def default_kwargs_def reduce_factory_def example_env_def Let_def)
  show ?thesis
    using abort_is_fatal [OF s, of "[REDUCE_VALUE ''2'', CLOSE]"] a d
    by (simp add: run_task_def log_def)
qed

text \<open>
  Claim C3. With the secret \<open>S\<close>, the handler of \<^verbatim>\<open>AUTHENTICATION_REQ(digest, challenge)\<close>
  succeeds exactly when \<open>digest\<close> is \<^verbatim>\<open>create_digest(S, challenge)\<close>. Then it writes one
  \<^verbatim>\<open>AUTHENTICATION_RESP\<close>, which carries
  \<^verbatim>\<open>create_digest(S, create_digest(S, challenge))\<close>, marks the engine as authenticated
  and the engine goes on; otherwise it raises a \<^verbatim>\<open>RuntimeError\<close>, the run fails and
  nothing is written.
\<close>

theorem authentication_request:
  assumes "password st = Some S"
  shows "protocol_next env st (AUTHENTICATION_REQ digest challenge) =
           (if digest = create_digest env S challenge
            then (Return None,
                  st\<lparr>trace := trace st @
                         [Sent (AUTHENTICATION_RESP
                                  (create_digest env S (create_digest env S challenge)))],
                     auth_done := True\<rparr>)
            else (Raise (RuntimeError ServerFailedToAuthenticate), st))
       \<and> step env (Running [] st) (AUTHENTICATION_REQ digest challenge) =
           (if digest = create_digest env S challenge
            then Running []
                  (st\<lparr>trace := trace st @
                         [Recv (AUTHENTICATION_REQ digest challenge),
                          Sent (AUTHENTICATION_RESP
                                  (create_digest env S (create_digest env S challenge)))],
                     auth_done := True\<rparr>)
            else Failed (RuntimeError ServerFailedToAuthenticate)
                   (st\<lparr>trace := trace st @ [Recv (AUTHENTICATION_REQ digest challenge)]\<rparr>))"
  using assms
  by (auto simp: protocol_next_def verify_digest_def step_def log_def)

theorem authentication_request_witness:
  "fst (protocol_next example_env (initial_state reduce_factory default_kwargs (Some ''s''))
          (AUTHENTICATION_REQ ''sc'' ''c'')) = Return None
   \<and> trace (snd (protocol_next example_env
                  (initial_state reduce_factory default_kwargs (Some ''s''))
                  (AUTHENTICATION_REQ ''sc'' ''c''))) = [Sent (AUTHENTICATION_RESP ''ssc'')]
   \<and> protocol_next example_env (initial_state reduce_factory default_kwargs (Some ''s''))
          (AUTHENTICATION_REQ ''xx'' ''c'')
       = (Raise (RuntimeError ServerFailedToAuthenticate),
          initial_state reduce_factory default_kwargs (Some ''s''))"
proof -
  have h: "password (initial_state reduce_factory default_kwargs (Some ''s'')) = Some ''s''"
    by (simp add: initial_state_def)
  have t: "trace (initial_state reduce_factory default_kwargs (Some ''s'')) = []"
    by (simp add: initial_state_def)
  show ?thesis
    using authentication_request [OF h, of example_env "''sc''" "''c''"]
      authentication_request [OF h, of example_env "''xx''" "''c''"]
    by (simp add: example_env_def t)
qed

subsection \<open>The record of the commands\<close>


lemma log_fields [simp]:
  "the_factory (log e st) = the_factory st" "job_conf (log e st) = job_conf st"
  "mapper (log e st) = mapper st" "partitioner (log e st) = partitioner st"
  "record_reader (log e st) = record_reader st" "record_writer (log e st) = record_writer st"
  "reducer (log e st) = reducer st" "nred (log e st) = nred st"
  "auth_done (log e st) = auth_done st" "password (log e st) = password st"
  "raw_split (log e st) = raw_split st" "raw_k (log e st) = raw_k st"
  "raw_v (log e st) = raw_v st" "get_k (log e st) = get_k st" "get_v (log e st) = get_v st"
  "private_encoding (log e st) = private_encoding st"
  "auto_serialize (log e st) = auto_serialize st"
  "ctx_key (log e st) = ctx_key st" "ctx_value (log e st) = ctx_value st"
  "input_split (log e st) = input_split st"
  "trace (log e st) = trace st @ [e]"
  by (simp_all add: log_def)

lemma log_commute:
  "(log e st)\<lparr>input_split := a\<rparr> = log e (st\<lparr>input_split := a\<rparr>)"
  "(log e st)\<lparr>nred := b\<rparr> = log e (st\<lparr>nred := b\<rparr>)"
  "(log e st)\<lparr>private_encoding := c\<rparr> = log e (st\<lparr>private_encoding := c\<rparr>)"
  "create_mapper (log e st) = log e (create_mapper st)"
  "create_partitioner (log e st) = log e (create_partitioner st)"
  "create_record_reader (log e st) = log e (create_record_reader st)"
  "create_record_writer (log e st) = log e (create_record_writer st)"
  "create_reducer (log e st) = log e (create_reducer st)"
  "read_split env (log e st) sp = read_split env st sp"
  by (simp_all add: log_def create_mapper_def create_partitioner_def create_record_reader_def
      create_record_writer_def create_reducer_def read_split_def)

lemma setup_record_writer_log:
  "setup_record_writer (log e st) p
     = (fst (setup_record_writer st p), log e (snd (setup_record_writer st p)))"
  by (simp add: setup_record_writer_def log_commute Let_def)

lemma map_only_setup_log:
  "map_only_setup (log e st) = (fst (map_only_setup st), log e (snd (map_only_setup st)))"
  by (simp add: map_only_setup_def log_commute setup_record_writer_log Let_def
      split: option.splits sum.splits)

lemma run_map_setup_log:
  "run_map_setup env (log e st) sp n p
     = (fst (run_map_setup env st sp n p), log e (snd (run_map_setup env st sp n p)))"
  by (simp add: run_map_setup_def log_commute map_only_setup_log Let_def
      split: option.splits prod.splits sum.splits)

subsection \<open>States of one task\<close>

lemma same_task_refl [simp]: "same_task st st"
  by (simp add: same_task_def)

lemma same_task_fields:
  assumes "same_task st st'"
  shows "the_factory st' = the_factory st" "job_conf st' = job_conf st"
    "mapper st' = mapper st" "partitioner st' = partitioner st"
    "record_reader st' = record_reader st" "record_writer st' = record_writer st"
    "reducer st' = reducer st" "nred st' = nred st"
    "auth_done st' = auth_done st" "password st' = password st"
    "get_k st' = get_k st" "get_v st' = get_v st"
    "private_encoding st' = private_encoding st" "auto_serialize st' = auto_serialize st"
    "raw_split st' = raw_split st" "raw_k st' = raw_k st" "raw_v st' = raw_v st"
    "input_split st' = input_split st"
proof -
  let ?u = "st'\<lparr>ctx_key := ctx_key st, ctx_value := ctx_value st, trace := trace st\<rparr>"
  have e: "?u = st" using assms by (simp add: same_task_def)
  have "the_factory ?u = the_factory st" "job_conf ?u = job_conf st"
    "mapper ?u = mapper st" "partitioner ?u = partitioner st"
    "record_reader ?u = record_reader st" "record_writer ?u = record_writer st"
    "reducer ?u = reducer st" "nred ?u = nred st"
    "auth_done ?u = auth_done st" "password ?u = password st"
    "get_k ?u = get_k st" "get_v ?u = get_v st"
    "private_encoding ?u = private_encoding st" "auto_serialize ?u = auto_serialize st"
    "raw_split ?u = raw_split st" "raw_k ?u = raw_k st" "raw_v ?u = raw_v st"
    "input_split ?u = input_split st"
    by (simp_all only: e)
  then show "the_factory st' = the_factory st" "job_conf st' = job_conf st"
    "mapper st' = mapper st" "partitioner st' = partitioner st"
    "record_reader st' = record_reader st" "record_writer st' = record_writer st"
    "reducer st' = reducer st" "nred st' = nred st"
    "auth_done st' = auth_done st" "password st' = password st"
    "get_k st' = get_k st" "get_v st' = get_v st"
    "private_encoding st' = private_encoding st" "auto_serialize st' = auto_serialize st"
    "raw_split st' = raw_split st" "raw_k st' = raw_k st" "raw_v st' = raw_v st"
    "input_split st' = input_split st"
    by simp_all
qed

lemma same_task_trans: "same_task a b \<Longrightarrow> same_task b c \<Longrightarrow> same_task a c"
proof -
  assume ab: "same_task a b" and bc: "same_task b c"
  have "c\<lparr>ctx_key := ctx_key b, ctx_value := ctx_value b, trace := trace b\<rparr> = b"
    using bc by (simp add: same_task_def)
  then have "(c\<lparr>ctx_key := ctx_key b, ctx_value := ctx_value b, trace := trace b\<rparr>)
      \<lparr>ctx_key := ctx_key a, ctx_value := ctx_value a, trace := trace a\<rparr>
     = b\<lparr>ctx_key := ctx_key a, ctx_value := ctx_value a, trace := trace a\<rparr>"
    by simp
  then show "same_task a c" using ab by (simp add: same_task_def)
qed

lemma same_task_updates [simp]:
  "same_task st (st\<lparr>trace := t\<rparr>)" "same_task st (st\<lparr>ctx_key := k\<rparr>)"
  "same_task st (st\<lparr>ctx_value := v\<rparr>)" "same_task st (log e st)"
  by (simp_all add: same_task_def log_def)

lemma same_task_emit_event: "same_task st st' \<Longrightarrow> emit_event st' = emit_event st"
  by (rule ext) (auto simp: emit_event_def same_task_fields Let_def split: option.splits)

lemma same_task_active_closes: "same_task st st' \<Longrightarrow> active_closes st' = active_closes st"
  by (simp add: active_closes_def same_task_fields)

lemma same_task_close_events: "same_task st st' \<Longrightarrow> close_events st' = close_events st"
  by (rule ext) (simp add: close_events_def same_task_emit_event)


lemma map_records_ok:
  assumes "mapper st = Some m"
    and "\<forall>kv \<in> set rs. snd (map_op m (fst kv) (snd kv)) = None"
  shows "\<exists>st'. map_records rs st = (None, st') \<and> same_task st st'
              \<and> trace st' = trace st @ map_events st m rs"
  using assms
proof (induction rs arbitrary: st)
  case Nil
  then show ?case by (simp add: map_events_def)
next
  case (Cons kv rs)
  let ?st1 = "st\<lparr>ctx_key := fst kv, ctx_value := snd kv\<rparr>"
  let ?st2 = "?st1\<lparr>trace := trace st @ Invoke (Map (fst kv) (snd kv))
                  # map (emit_event st) (fst (map_op m (fst kv) (snd kv)))\<rparr>"
  have ok: "snd (map_op m (fst kv) (snd kv)) = None" using Cons.prems(2) by simp
  have ee: "emit_event ?st1 = emit_event st"
    by (rule same_task_emit_event) (simp add: same_task_def)
  have p: "perform (log (Invoke (Map (ctx_key ?st1) (ctx_value ?st1))) ?st1)
             (map_op m (ctx_key ?st1) (ctx_value ?st1)) = (None, ?st2)"
    using ok ee by (simp add: perform_eq log_def)
  have m2: "mapper ?st2 = Some m" using Cons.prems(1) by simp
  have "\<forall>kv \<in> set rs. snd (map_op m (fst kv) (snd kv)) = None" using Cons.prems(2) by simp
  from Cons.IH [OF m2 this] obtain st' where
    r: "map_records rs ?st2 = (None, st')" and s: "same_task ?st2 st'"
    and t: "trace st' = trace ?st2 @ map_events ?st2 m rs"
    by blast
  have s2: "same_task st ?st2" by (simp add: same_task_def)
  have e2: "emit_event ?st2 = emit_event st" by (rule same_task_emit_event [OF s2])
  have "map_records (kv # rs) st = (None, st')"
    using Cons.prems(1) p r by (simp add: Let_def)
  moreover have "same_task st st'" by (rule same_task_trans [OF s2 s])
  moreover have "trace st' = trace st @ map_events st m (kv # rs)"
    using t by (simp add: map_events_def ee)
  ultimately show ?case by blast
qed

subsection \<open>A map task that reads its own input\<close>

lemma emit_event_cases:
  "(\<exists>k v. emit_event st kv = Invoke (Writer_emit k v))
   \<or> (\<exists>k v. emit_event st kv = Sent (OUTPUT k v))
   \<or> (\<exists>i k v. emit_event st kv = Sent (PARTITIONED_OUTPUT i k v))"
  by (auto simp: emit_event_def Let_def split: option.splits)

lemma emit_event_not [simp]:
  "\<not> is_map_call (emit_event st kv)" "\<not> is_recv (emit_event st kv)"
  "\<not> is_reduce_event (emit_event st kv)"
  using emit_event_cases [of st kv] by auto

lemma close_call_not:
  assumes "is_close_call e"
  shows "\<not> is_map_call e" "\<not> is_recv e" "\<not> is_reduce_event e" "e \<noteq> Sent DONE"
  using assms by (induction e rule: is_close_call.induct) simp_all

lemma filter_emitted:
  "(\<And>kv. \<not> P (emit_event st kv)) \<Longrightarrow> filter P (map (emit_event st) es) = []"
  by (induction es) simp_all

lemma filter_close_events_none:
  "(\<And>kv. \<not> P (emit_event st kv)) \<Longrightarrow> (\<And>cr. cr \<in> set crs \<Longrightarrow> \<not> P (Invoke (fst cr))) \<Longrightarrow>
   filter P (close_events st crs) = []"
  by (induction crs) (simp_all add: close_events_def filter_emitted)

lemma filter_map_events_all:
  "(\<And>kv. \<not> P (emit_event st kv)) \<Longrightarrow> (\<And>k v. P (Invoke (Map k v))) \<Longrightarrow>
   filter P (map_events st m rs) = map (\<lambda>kv. Invoke (Map (fst kv) (snd kv))) rs"
  by (induction rs) (simp_all add: map_events_def filter_emitted)

lemma filter_map_events_none:
  "(\<And>kv. \<not> P (emit_event st kv)) \<Longrightarrow> (\<And>k v. \<not> P (Invoke (Map k v))) \<Longrightarrow>
   filter P (map_events st m rs) = []"
  by (induction rs) (simp_all add: map_events_def filter_emitted)

lemma until_raise_active_closes:
  "cr \<in> set (until_raise (active_closes st)) \<Longrightarrow> is_close_call (Invoke (fst cr))"
  using set_until_raise active_closes_are_closes by blast

lemma filter_teardown:
  "filter is_map_call (close_events st (until_raise (active_closes st'))) = []"
  "filter is_recv (close_events st (until_raise (active_closes st'))) = []"
  "filter is_reduce_event (close_events st (until_raise (active_closes st'))) = []"
  "filter (\<lambda>e. e = Sent DONE) (close_events st (until_raise (active_closes st'))) = []"
  by (rule filter_close_events_none;
      simp add: close_call_not [OF until_raise_active_closes])+

lemma setup_record_writer_keeps:
  "setup_record_writer st p = (r, st') \<Longrightarrow>
   trace st' = trace st \<and> the_factory st' = the_factory st \<and> job_conf st' = job_conf st
   \<and> partitioner st' = partitioner st \<and> nred st' = nred st"
  by (auto simp: setup_record_writer_def create_record_writer_def Let_def split: if_splits)

lemma map_only_setup_keeps:
  "map_only_setup st = (r, st') \<Longrightarrow>
   trace st' = trace st \<and> the_factory st' = the_factory st \<and> job_conf st' = job_conf st
   \<and> partitioner st' = partitioner st \<and> nred st' = nred st"
  by (auto simp: map_only_setup_def Let_def split: option.splits sum.splits
      dest!: setup_record_writer_keeps)

lemma run_map_setup_ok:
  assumes "run_map_setup env st sp n p = (None, st1)"
  shows "mapper st1 = Some (mclass (the_factory st))" "trace st1 = trace st"
proof -
  obtain the_split where sp: "read_split env st sp = Inr the_split"
    using assms by (cases "read_split env st sp") (simp_all add: run_map_setup_def)
  let ?st2 = "create_record_reader (st\<lparr>input_split := Some the_split\<rparr>)"
  obtain r st3 where m: "(if n < 1 then map_only_setup ?st2 else (None, ?st2)) = (r, st3)"
    by (cases "if n < 1 then map_only_setup ?st2 else (None, ?st2)")
  have k: "trace st3 = trace st \<and> the_factory st3 = the_factory st"
    using m map_only_setup_keeps [of ?st2 r st3]
    by (auto simp: create_record_reader_def split: if_splits)
  have "st1 = create_partitioner (create_mapper (st3\<lparr>nred := Some n\<rparr>))"
    using assms m sp unfolding run_map_setup_def Let_def
    by (cases r) (auto split: if_splits)
  then show "mapper st1 = Some (mclass (the_factory st))" "trace st1 = trace st"
    using k by (simp_all add: create_partitioner_def create_mapper_def)
qed

text \<open>
  Claim C2. Let the engine be authenticated, let the setup of \<^verbatim>\<open>RUN_MAP\<close> succeed with
  the record reader \<open>rd\<close> that the factory has created, and let no call of \<^verbatim>\<open>map\<close> on a
  record of the reader raise. Then the run ends normally at this command, whatever
  commands \<open>rest\<close> follow it on the stream. The calls of \<^verbatim>\<open>map\<close> are one for each record
  of the reader, in the reader's order, each with the key and the value of its record
  in the context; one \<^verbatim>\<open>DONE\<close> is written, as the last event; and \<^verbatim>\<open>RUN_MAP\<close> is the
  only command that is read.
\<close>

theorem run_map_pull_path:
  assumes "auth_done st"
    and "run_map_setup env st sp n piped_input = (None, st1)"
    and "record_reader st1 = Some rd"
    and "\<forall>kv \<in> set (records rd).
           snd (map_op (mclass (the_factory st)) (fst kv) (snd kv)) = None"
  shows "\<exists>st'. run env (Running [] st) (RUN_MAP sp n piped_input # rest) = Finished st'
           \<and> filter is_map_call (new_events st st')
               = map (\<lambda>kv. Invoke (Map (fst kv) (snd kv))) (records rd)
           \<and> filter (\<lambda>e. e = Sent DONE) (new_events st st') = [Sent DONE]
           \<and> last (new_events st st') = Sent DONE
           \<and> filter is_recv (new_events st st') = [Recv (RUN_MAP sp n piped_input)]"
proof -
  let ?c = "RUN_MAP sp n piped_input"
  let ?m = "mclass (the_factory st)"
  let ?s1 = "log (Recv ?c) st1"
  have su: "run_map_setup env (log (Recv ?c) st) sp n piped_input = (None, ?s1)"
    using assms(2) by (simp add: run_map_setup_log)
  have m1: "mapper ?s1 = Some ?m" and t1: "trace st1 = trace st"
    using run_map_setup_ok [OF assms(2)] by simp_all
  obtain st2 where
    r: "map_records (records rd) ?s1 = (None, st2)" and s: "same_task ?s1 st2"
    and t2: "trace st2 = trace ?s1 @ map_events ?s1 ?m (records rd)"
    using map_records_ok [OF m1 assms(4)] by blast
  let ?close = "close_events st2 (until_raise (active_closes st2))"
  let ?st' = "st2\<lparr>trace := trace st2 @ ?close @ [Sent DONE]\<rparr>"
  have "protocol_next env (log (Recv ?c) st) ?c = (StopIteration, ?st')"
    using assms(1,3) su r
    by (simp add: protocol_next_def run_map_def Context_close_eq)
  then have run: "run env (Running [] st) (?c # rest) = Finished ?st'"
    by (simp add: run_def steps_Cons step_def steps_Finished end_of_stream_def)
  have new: "new_events st ?st'
      = Recv ?c # map_events ?s1 ?m (records rd) @ ?close @ [Sent DONE]"
    by (simp add: new_events_def t2 t1)
  have 1: "filter is_map_call (new_events st ?st')
      = map (\<lambda>kv. Invoke (Map (fst kv) (snd kv))) (records rd)"
    unfolding new by (simp add: filter_map_events_all filter_teardown)
  have 2: "filter (\<lambda>e. e = Sent DONE) (new_events st ?st') = [Sent DONE]"
    unfolding new by (simp add: filter_map_events_none filter_teardown)
  have 3: "last (new_events st ?st') = Sent DONE"
    unfolding new by simp
  have 4: "filter is_recv (new_events st ?st') = [Recv ?c]"
    unfolding new by (simp add: filter_map_events_none filter_teardown)
  show ?thesis using run 1 2 3 4 by blast
qed

theorem run_map_pull_path_witness:
  "\<exists>st'. run example_env (Running [] (authenticated map_factory)) [RUN_MAP ''s'' 2 0, CLOSE]
          = Finished st'
        \<and> filter is_map_call (new_events (authenticated map_factory) st')
            = [Invoke (Map (Obj ''k1'') (Obj ''v1'')), Invoke (Map (Obj ''k2'') (Obj ''v2''))]
        \<and> filter (\<lambda>e. e = Sent DONE) (new_events (authenticated map_factory) st')
            = [Sent DONE]
        \<and> last (new_events (authenticated map_factory) st') = Sent DONE
        \<and> filter is_recv (new_events (authenticated map_factory) st')
            = [Recv (RUN_MAP ''s'' 2 0)]"
proof -
  let ?st = "authenticated map_factory"
  have auth: "auth_done ?st"
    by (simp add: authenticated_def)
  obtain st1 where
    su: "run_map_setup example_env ?st ''s'' 2 0 = (None, st1)"
    and rd: "record_reader st1 = Some example_reader"
    by (simp add: run_map_setup_def read_split_def create_record_reader_def
        create_mapper_def create_partitioner_def authenticated_def initial_state_def
        default_kwargs_def map_factory_def example_env_def Let_def)
  have ok: "\<forall>kv \<in> set (records example_reader).
              snd (map_op (mclass (the_factory ?st)) (fst kv) (snd kv)) = None"
    by (simp add: authenticated_def initial_state_def map_factory_def example_mapper_def)
  show ?thesis
    using run_map_pull_path [OF auth su rd ok, of "[CLOSE]"]
    by (simp add: example_reader_def)
qed

subsection \<open>The grouping loop of a reduce task\<close>

lemma filter_emitted_simps [simp]:
  "filter is_reduce_event (map (emit_event st) es) = []"
  "filter is_recv (map (emit_event st) es) = []"
  "filter is_map_call (map (emit_event st) es) = []"
  "filter (\<lambda>e. e = Sent DONE) (map (emit_event st) es) = []"
  by (simp_all add: filter_emitted)

lemma step_RUN_REDUCE:
  assumes "auth_done st" and "(rwclass (the_factory st) = None) = (piped_output \<noteq> 0)"
  shows "\<exists>st'. step env (Running fs st) (RUN_REDUCE part piped_output)
                 = Running (Groupby_next None # fs) st'
            \<and> auth_done st' \<and> mapper st' = mapper st
            \<and> reducer st' = rclass (the_factory st)
            \<and> get_k st' = (if private_encoding st then get_pickled else get_k st)
            \<and> get_v st' = (if private_encoding st then get_pickled else get_v st)
            \<and> trace st' = trace st @ [Recv (RUN_REDUCE part piped_output)]"
proof (cases "rwclass (the_factory st)")
  case None
  then have "piped_output \<noteq> 0" using assms(2) by simp
  then show ?thesis using assms(1) None
    by (simp add: step_def protocol_next_def run_reduce_def setup_record_writer_def
        create_record_writer_def create_reducer_def log_def Let_def)
next
  case (Some w)
  then have "piped_output = 0" using assms(2) by simp
  then show ?thesis using assms(1) Some
    by (simp add: step_def protocol_next_def run_reduce_def setup_record_writer_def
        create_record_writer_def create_reducer_def log_def Let_def)
qed

lemma step_key_opens_group:
  assumes "auth_done st" and "tgtkey \<noteq> Some 6"
    and "deserialize env (get_k st) k = Inr key"
  shows "\<exists>st'. step env (Running (Groupby_next tgtkey # fs) st) (REDUCE_KEY k)
                 = Running (Groupby_next (Some 6) # fs) st'
            \<and> same_task st st' \<and> ctx_key st' = key
            \<and> trace st' = trace st @ [Recv (REDUCE_KEY k)]"
  using assms
  by (simp add: step_def protocol_next_def new_group_def log_def same_task_def)

lemma step_value_starts_reduce:
  assumes "auth_done st" and "tgtkey \<noteq> Some 7" and "reducer st = Some r"
    and "deserialize env (get_v st) v = Inr val"
  shows "\<exists>st'. step env (Running (Groupby_next tgtkey # fs) st) (REDUCE_VALUE v)
                 = Running (Grouper_next [val] # fs) st'
            \<and> same_task st st' \<and> ctx_key st' = ctx_key st
            \<and> trace st' = trace st @ [Recv (REDUCE_VALUE v), Invoke (Reduce (ctx_key st)),
                                        Yield val]"
  using assms
  by (simp add: step_def protocol_next_def new_group_def log_def same_task_def)

lemma step_value_goes_on:
  assumes "auth_done st"
    and "deserialize env (get_v st) v = Inr val"
  shows "\<exists>st'. step env (Running (Grouper_next vs # fs) st) (REDUCE_VALUE v)
                 = Running (Grouper_next (vs @ [val]) # fs) st'
            \<and> same_task st st' \<and> ctx_key st' = ctx_key st
            \<and> trace st' = trace st @ [Recv (REDUCE_VALUE v), Yield val]"
  using assms
  by (simp add: step_def protocol_next_def log_def same_task_def)

lemma step_key_ends_group:
  assumes "auth_done st" and "reducer st = Some r"
    and "snd (reduce_op r (ctx_key st) vs) = None"
    and "deserialize env (get_k st) k = Inr key"
  shows "\<exists>st'. step env (Running (Grouper_next vs # fs) st) (REDUCE_KEY k)
                 = Running (Groupby_next (Some 6) # fs) st'
            \<and> same_task st st' \<and> ctx_key st' = key
            \<and> trace st' = trace st @ Recv (REDUCE_KEY k)
                   # map (emit_event st) (fst (reduce_op r (ctx_key st) vs))"
  using assms
  by (simp add: step_def protocol_next_def new_group_def finish_reduce_def
      perform_eq log_def same_task_def)

lemma step_close_ends_task:
  assumes "auth_done st" and "mapper st = None" and "reducer st = Some r"
    and "snd (reduce_op r (ctx_key st) vs) = None"
  shows "\<exists>st'. step env (Running [Grouper_next vs] st) CLOSE = Finished st'
            \<and> trace st' = trace st @ Recv CLOSE
                   # map (emit_event st) (fst (reduce_op r (ctx_key st) vs))
                 @ close_events st (until_raise (active_closes st)) @ [Sent DONE]"
proof -
  let ?es = "fst (reduce_op r (ctx_key st) vs)"
  let ?st1 = "st\<lparr>trace := trace st @ Recv CLOSE # map (emit_event st) ?es\<rparr>"
  have s: "same_task st ?st1" by simp
  have "step env (Running [Grouper_next vs] st) CLOSE = Finished (snd (Context_close ?st1))"
    using assms
    by (simp add: step_def protocol_next_def new_group_def finish_reduce_def perform_eq
        log_def)
  moreover have "trace (snd (Context_close ?st1))
     = trace st @ Recv CLOSE # map (emit_event st) ?es
         @ close_events st (until_raise (active_closes st)) @ [Sent DONE]"
    by (simp add: Context_close_eq same_task_close_events [OF s]
        same_task_active_closes [OF s])
  ultimately show ?thesis by blast
qed

text \<open>
  Claim C1. Let the engine be authenticated in a reduce task: the factory has a reducer
  class, and the output is piped exactly when it has no record writer class. Let the
  fields \<open>k1\<close>, \<open>k2\<close> of the stream decode to the keys \<open>key1\<close>, \<open>key2\<close> and
  \<open>v1\<close>, \<open>v2\<close>, \<open>v3\<close> to the values \<open>val1\<close>, \<open>val2\<close>, \<open>val3\<close>, and let the two
  calls of \<^verbatim>\<open>reduce\<close> not raise. Then on \<^verbatim>\<open>RUN_REDUCE\<close>, \<^verbatim>\<open>REDUCE_KEY(k1)\<close>,
  \<^verbatim>\<open>REDUCE_VALUE(v1)\<close>, \<^verbatim>\<open>REDUCE_VALUE(v2)\<close>, \<^verbatim>\<open>REDUCE_KEY(k2)\<close>, \<^verbatim>\<open>REDUCE_VALUE(v3)\<close>,
  \<^verbatim>\<open>CLOSE\<close> the run ends normally. \<^verbatim>\<open>reduce\<close> is called twice: first with the key
  \<open>key1\<close>, and its iterator of values yields \<open>val1\<close>, then \<open>val2\<close>, and no more; then
  with the key \<open>key2\<close>, and its iterator yields \<open>val3\<close> and no more. One \<^verbatim>\<open>DONE\<close> is
  written, as the last event, and the commands read are these seven.
\<close>

theorem reduce_grouping:
  assumes auth: "auth_done st"
    and nomap: "mapper st = None"
    and red: "rclass (the_factory st) = Some r"
    and wr: "(rwclass (the_factory st) = None) = (piped_output \<noteq> 0)"
    and dk: "dk = (if private_encoding st then get_pickled else get_k st)"
    and dv: "dv = (if private_encoding st then get_pickled else get_v st)"
    and d1: "deserialize env dk k1 = Inr key1" and d2: "deserialize env dk k2 = Inr key2"
    and d3: "deserialize env dv v1 = Inr val1" and d4: "deserialize env dv v2 = Inr val2"
    and d5: "deserialize env dv v3 = Inr val3"
    and ok1: "snd (reduce_op r key1 [val1, val2]) = None"
    and ok2: "snd (reduce_op r key2 [val3]) = None"
  shows "\<exists>st'. run env (Running [] st)
               (RUN_REDUCE part piped_output # REDUCE_KEY k1 # REDUCE_VALUE v1
                  # REDUCE_VALUE v2 # REDUCE_KEY k2 # REDUCE_VALUE v3 # CLOSE # rest)
             = Finished st'
           \<and> filter is_reduce_event (new_events st st')
               = [Invoke (Reduce key1), Yield val1, Yield val2,
                  Invoke (Reduce key2), Yield val3]
           \<and> filter (\<lambda>e. e = Sent DONE) (new_events st st') = [Sent DONE]
           \<and> last (new_events st st') = Sent DONE
           \<and> filter is_recv (new_events st st')
               = map Recv [RUN_REDUCE part piped_output, REDUCE_KEY k1, REDUCE_VALUE v1,
                           REDUCE_VALUE v2, REDUCE_KEY k2, REDUCE_VALUE v3, CLOSE]"
proof -
  obtain s0 where
    e0: "step env (Running [] st) (RUN_REDUCE part piped_output)
           = Running [Groupby_next None] s0"
    and a0: "auth_done s0" and m0: "mapper s0 = None" and r0: "reducer s0 = Some r"
    and k0: "get_k s0 = dk" and v0: "get_v s0 = dv"
    and t0: "trace s0 = trace st @ [Recv (RUN_REDUCE part piped_output)]"
    using step_RUN_REDUCE [OF auth wr, of env "[]" part] nomap red dk dv by auto
  have g1: "deserialize env (get_k s0) k1 = Inr key1" using d1 k0 by simp
  obtain s1 where
    e1: "step env (Running [Groupby_next None] s0) (REDUCE_KEY k1)
           = Running [Groupby_next (Some 6)] s1"
    and s1: "same_task s0 s1" and c1: "ctx_key s1 = key1"
    and t1: "trace s1 = trace s0 @ [Recv (REDUCE_KEY k1)]"
    using step_key_opens_group [OF a0 _ g1, of None "[]"] by auto
  note f1 = same_task_fields [OF s1]
  have a1: "auth_done s1" and r1: "reducer s1 = Some r" using a0 r0 f1 by simp_all
  have g2: "deserialize env (get_v s1) v1 = Inr val1" using d3 v0 f1 by simp
  obtain s2 where
    e2: "step env (Running [Groupby_next (Some 6)] s1) (REDUCE_VALUE v1)
           = Running [Grouper_next [val1]] s2"
    and s2: "same_task s1 s2" and c2: "ctx_key s2 = key1"
    and t2: "trace s2 = trace s1 @ [Recv (REDUCE_VALUE v1), Invoke (Reduce key1), Yield val1]"
    using step_value_starts_reduce [OF a1 _ r1 g2, of "Some 6" "[]"] c1 by auto
  note f2 = same_task_fields [OF same_task_trans [OF s1 s2]]
  have a2: "auth_done s2" using a0 f2 by simp
  have g3: "deserialize env (get_v s2) v2 = Inr val2" using d4 v0 f2 by simp
  obtain s3 where
    e3: "step env (Running [Grouper_next [val1]] s2) (REDUCE_VALUE v2)
           = Running [Grouper_next [val1, val2]] s3"
    and s3: "same_task s2 s3" and c3: "ctx_key s3 = key1"
    and t3: "trace s3 = trace s2 @ [Recv (REDUCE_VALUE v2), Yield val2]"
    using step_value_goes_on [OF a2 g3, of "[val1]" "[]"] c2 by auto
  note f3 = same_task_fields [OF same_task_trans [OF same_task_trans [OF s1 s2] s3]]
  have g4: "deserialize env (get_k s3) k2 = Inr key2" using d2 k0 f3 by simp
  have o1: "snd (reduce_op r (ctx_key s3) [val1, val2]) = None"
    using ok1 c3 by simp
  have a3: "auth_done s3" and r3: "reducer s3 = Some r" using a0 r0 f3 by simp_all
  obtain s4 where
    e4: "step env (Running [Grouper_next [val1, val2]] s3) (REDUCE_KEY k2)
           = Running [Groupby_next (Some 6)] s4"
    and s4: "same_task s3 s4" and c4: "ctx_key s4 = key2"
    and t4: "trace s4 = trace s3 @ Recv (REDUCE_KEY k2)
               # map (emit_event s3) (fst (reduce_op r (ctx_key s3) [val1, val2]))"
    using step_key_ends_group [OF a3 r3 o1 g4, of "[]"] by auto
  note f4 = same_task_fields
    [OF same_task_trans [OF same_task_trans [OF same_task_trans [OF s1 s2] s3] s4]]
  have a4: "auth_done s4" and r4: "reducer s4 = Some r" using a0 r0 f4 by simp_all
  have g5: "deserialize env (get_v s4) v3 = Inr val3" using d5 v0 f4 by simp
  obtain s5 where
    e5: "step env (Running [Groupby_next (Some 6)] s4) (REDUCE_VALUE v3)
           = Running [Grouper_next [val3]] s5"
    and s5: "same_task s4 s5" and c5: "ctx_key s5 = key2"
    and t5: "trace s5 = trace s4 @ [Recv (REDUCE_VALUE v3), Invoke (Reduce key2), Yield val3]"
    using step_value_starts_reduce [OF a4 _ r4 g5, of "Some 6" "[]"] c4 by auto
  note f5 = same_task_fields
    [OF same_task_trans [OF same_task_trans [OF same_task_trans
      [OF same_task_trans [OF s1 s2] s3] s4] s5]]
  have a5: "auth_done s5" and m5: "mapper s5 = None" and r5: "reducer s5 = Some r"
    using a0 m0 r0 f5 by simp_all
  have o2: "snd (reduce_op r (ctx_key s5) [val3]) = None" using ok2 c5 by simp
  obtain s6 where
    e6: "step env (Running [Grouper_next [val3]] s5) CLOSE = Finished s6"
    and t6: "trace s6 = trace s5 @ Recv CLOSE
               # map (emit_event s5) (fst (reduce_op r (ctx_key s5) [val3]))
               @ close_events s5 (until_raise (active_closes s5)) @ [Sent DONE]"
    using step_close_ends_task [OF a5 m5 r5 o2, of env] by auto
  have run: "run env (Running [] st)
               (RUN_REDUCE part piped_output # REDUCE_KEY k1 # REDUCE_VALUE v1
                  # REDUCE_VALUE v2 # REDUCE_KEY k2 # REDUCE_VALUE v3 # CLOSE # rest)
             = Finished s6"
    by (simp add: run_def steps_Cons e0 e1 e2 e3 e4 e5 e6 steps_Finished end_of_stream_def)
  have new: "new_events st s6 =
      [Recv (RUN_REDUCE part piped_output), Recv (REDUCE_KEY k1),
       Recv (REDUCE_VALUE v1), Invoke (Reduce key1), Yield val1,
       Recv (REDUCE_VALUE v2), Yield val2, Recv (REDUCE_KEY k2)]
      @ map (emit_event s3) (fst (reduce_op r (ctx_key s3) [val1, val2]))
      @ [Recv (REDUCE_VALUE v3), Invoke (Reduce key2), Yield val3, Recv CLOSE]
      @ map (emit_event s5) (fst (reduce_op r (ctx_key s5) [val3]))
      @ close_events s5 (until_raise (active_closes s5)) @ [Sent DONE]"
    by (simp add: new_events_def t6 t5 t4 t3 t2 t1 t0)
  have 1: "filter is_reduce_event (new_events st s6)
     = [Invoke (Reduce key1), Yield val1, Yield val2, Invoke (Reduce key2), Yield val3]"
    unfolding new by (simp add: filter_teardown)
  have 2: "filter (\<lambda>e. e = Sent DONE) (new_events st s6) = [Sent DONE]"
    unfolding new by (simp add: filter_teardown)
  have 3: "last (new_events st s6) = Sent DONE"
    unfolding new by simp
  have 4: "filter is_recv (new_events st s6)
     = map Recv [RUN_REDUCE part piped_output, REDUCE_KEY k1, REDUCE_VALUE v1,
                 REDUCE_VALUE v2, REDUCE_KEY k2, REDUCE_VALUE v3, CLOSE]"
    unfolding new by (simp add: filter_teardown)
  show ?thesis using run 1 2 3 4 by blast
qed

theorem reduce_grouping_witness:
  "\<exists>st'. run example_env (Running [] (authenticated reduce_factory))
            [RUN_REDUCE 0 1, REDUCE_KEY ''a'', REDUCE_VALUE ''1'', REDUCE_VALUE ''2'',
             REDUCE_KEY ''b'', REDUCE_VALUE ''3'', CLOSE]
          = Finished st'
        \<and> filter is_reduce_event (new_events (authenticated reduce_factory) st')
            = [Invoke (Reduce (Obj ''a'')), Yield (Obj ''1''), Yield (Obj ''2''),
               Invoke (Reduce (Obj ''b'')), Yield (Obj ''3'')]
        \<and> filter (\<lambda>e. e = Sent DONE) (new_events (authenticated reduce_factory) st')
            = [Sent DONE]
        \<and> last (new_events (authenticated reduce_factory) st') = Sent DONE"
proof -
  let ?st = "authenticated reduce_factory"
  have auth: "auth_done ?st" and nomap: "mapper ?st = None"
    and red: "rclass (the_factory ?st) = Some example_reducer"
    and wr: "(rwclass (the_factory ?st) = None) = ((1::int) \<noteq> 0)"
    and dk: "get_pickled = (if private_encoding ?st then get_pickled else get_k ?st)"
    and dv: "get_pickled = (if private_encoding ?st then get_pickled else get_v ?st)"
    by (simp_all add: authenticated_def initial_state_def default_kwargs_def
        reduce_factory_def)
  have d: "\<And>b. deserialize example_env get_pickled b = Inr (Obj b)"
    by (simp add: deserialize_def example_env_def)
  have ok: "\<And>k vs. snd (reduce_op example_reducer k vs) = None"
    by (simp add: example_reducer_def)
  show ?thesis
    using reduce_grouping [OF auth nomap red wr dk dv d d d d d ok ok,
        where ?k1.0 = "''a''" and ?k2.0 = "''b''" and ?v1.0 = "''1''" and ?v2.0 = "''2''"
          and ?v3.0 = "''3''" and part = 0 and rest = "[]"]
    by blast
qed

subsection \<open>The partitioner and the number of reduce tasks\<close>


lemma task_invariant_keeps:
  "job_conf st' = job_conf st \<Longrightarrow> partitioner st' = partitioner st \<Longrightarrow> nred st' = nred st
   \<Longrightarrow> task_invariant st \<Longrightarrow> task_invariant st'"
  by (simp add: task_invariant_def)

















text \<open>
  The invariant below rests on the first conjunct of \<open>task_invariant\<close>, that no run
  installs a job configuration. In a state that holds one, \<^verbatim>\<open>RUN_MAP\<close> for a map-only
  job goes through and \<^verbatim>\<open>create_partitioner\<close>, which does not look at the number of
  reduce tasks, makes the partitioner of the factory:
\<close>

lemma run_map_setup_with_job_conf:
  assumes "job_conf st = Some jc"
    and "get_bool jc IS_JAVA_RW PyNone = Inr (PyBool True)"
    and "rwclass (the_factory st) = None"
    and "rrclass (the_factory st) = None"
    and "raw_split st" and "piped_input \<noteq> 0" and "n < 1"
  shows "\<exists>st'. run_map_setup env st sp n piped_input = (None, st')
           \<and> partitioner st' = pclass (the_factory st) \<and> nred st' = Some n"
  using assms
  by (simp add: run_map_setup_def read_split_def create_record_reader_def map_only_setup_def
      setup_record_writer_def create_record_writer_def create_mapper_def
      create_partitioner_def Let_def)



end
